theory Spec2Isabelle
  imports Main "HOL-Library.Word"
begin

unbundle bit_operations_syntax

section \<open>Machine types and function pointers\<close>

text \<open>
  The library is written for Arduino, where \<^verbatim>\<open>unsigned long\<close> (the type of
  \<^verbatim>\<open>millis()\<close> and of every stored timestamp) has 32 bits; \<open>+\<close> on it wraps and
  \<open><\<close> compares the unsigned values. Ids, the high-water marks \<^verbatim>\<open>last_schd\<close>,
  \<^verbatim>\<open>last_rct\<close> and the template parameters \<^verbatim>\<open>T_MAX\<close>, \<^verbatim>\<open>R_MAX\<close> are \<^verbatim>\<open>int\<close>; no
  operation of the class computes with them beyond \<open>last + 1\<close> and \<open>MAX - 2\<close>, so they
  are modelled as mathematical integers. A function pointer is the address it holds
  (\<open>0\<close> is \<^verbatim>\<open>nullptr\<close>); what the pointed-to function does is given by an environment.
\<close>

type_synonym ulong = "32 word"
type_synonym fnptr = nat

section \<open>SimpleEvents: the data members\<close>

text \<open>The private members of \<^verbatim>\<open>class SimpleEvents\<close>, arrays as lists.\<close>

record SimpleEvents =
  last_schd :: int
  last_rct :: int
  last_case :: int
  schd_calls :: "fnptr list"
  rct_calls :: "fnptr list"
  rct_trigs :: "fnptr list"
  schd_tIntrvls :: "ulong list"
  rct_tTimeouts :: "ulong list"
  rct_tDelays :: "ulong list"
  schd_areActive :: "bool list"
  rct_areActive :: "bool list"
  rct_areTrigged :: "bool list"
  schd_nextCalls :: "ulong list"
  rct_nextTrigs :: "ulong list"
  rct_nextCalls :: "ulong list"

text \<open>The member initialisers: a fresh instance with capacities \<open>T_MAX\<close> and \<open>R_MAX\<close>.\<close>

definition init :: "int \<Rightarrow> int \<Rightarrow> SimpleEvents" where
  "init T_MAX R_MAX =
     \<lparr> last_schd = - 1, last_rct = - 1, last_case = - 1,
       schd_calls = replicate (nat T_MAX) 0,
       rct_calls = replicate (nat R_MAX) 0,
       rct_trigs = replicate (nat R_MAX) 0,
       schd_tIntrvls = replicate (nat T_MAX) 0,
       rct_tTimeouts = replicate (nat R_MAX) 0,
       rct_tDelays = replicate (nat R_MAX) 0,
       schd_areActive = replicate (nat T_MAX) False,
       rct_areActive = replicate (nat R_MAX) False,
       rct_areTrigged = replicate (nat R_MAX) False,
       schd_nextCalls = replicate (nat T_MAX) 0,
       rct_nextTrigs = replicate (nat R_MAX) 0,
       rct_nextCalls = replicate (nat R_MAX) 0 \<rparr>"

text \<open>
  The class invariant: every array has its declared size and the high-water marks
  lie between \<open>-1\<close> and the last index. All indexing in the class is guarded by the
  high-water marks, so under this invariant no array is read or written out of range
  (which would be undefined behaviour in C++ and is unspecified for \<open>!\<close>).
\<close>

definition class_inv :: "int \<Rightarrow> int \<Rightarrow> SimpleEvents \<Rightarrow> bool" where
  "class_inv T_MAX R_MAX s \<longleftrightarrow>
     - 1 \<le> last_schd s \<and> last_schd s < T_MAX \<and>
     - 1 \<le> last_rct s \<and> last_rct s < R_MAX \<and>
     length (schd_calls s) = nat T_MAX \<and>
     length (schd_tIntrvls s) = nat T_MAX \<and>
     length (schd_areActive s) = nat T_MAX \<and>
     length (schd_nextCalls s) = nat T_MAX \<and>
     length (rct_calls s) = nat R_MAX \<and>
     length (rct_trigs s) = nat R_MAX \<and>
     length (rct_tTimeouts s) = nat R_MAX \<and>
     length (rct_tDelays s) = nat R_MAX \<and>
     length (rct_areActive s) = nat R_MAX \<and>
     length (rct_areTrigged s) = nat R_MAX \<and>
     length (rct_nextTrigs s) = nat R_MAX \<and>
     length (rct_nextCalls s) = nat R_MAX"

section \<open>SimpleEvents: adding hooks and the control operations\<close>

text \<open>
  Each method takes the object and returns it updated (with the returned id for the
  two \<^verbatim>\<open>add\<close> methods). A method that calls \<^verbatim>\<open>millis()\<close> takes the value read as
  its first argument \<open>clk\<close>. The \<^verbatim>\<open>SIMPLE_EVENTS_print\<close> lines expand to nothing
  unless the verbose flag is set, and never touch the object.
\<close>

definition addSchedule ::
  "int \<Rightarrow> fnptr \<Rightarrow> ulong \<Rightarrow> ulong \<Rightarrow> SimpleEvents \<Rightarrow> int \<times> SimpleEvents" where
  "addSchedule T_MAX callback interval delay_start s =
     (if last_schd s > T_MAX - 2 then (- 1, s)
      else
        let l = last_schd s + 1;
            s = s\<lparr>last_schd := l\<rparr>;
            s = s\<lparr>schd_calls := (schd_calls s)[nat l := callback]\<rparr>;
            s = s\<lparr>schd_tIntrvls := (schd_tIntrvls s)[nat l := interval]\<rparr>;
            s = s\<lparr>schd_nextCalls := (schd_nextCalls s)[nat l := delay_start]\<rparr>;
            s = s\<lparr>schd_areActive := (schd_areActive s)[nat l := True]\<rparr>
        in (l, s))"

definition addReaction ::
  "int \<Rightarrow> fnptr \<Rightarrow> fnptr \<Rightarrow> ulong \<Rightarrow> ulong \<Rightarrow> ulong \<Rightarrow> SimpleEvents
     \<Rightarrow> int \<times> SimpleEvents" where
  "addReaction R_MAX trigger callback timeout delay delay_start s =
     (if last_rct s > R_MAX - 2 then (- 1, s)
      else
        let l = last_rct s + 1;
            s = s\<lparr>last_rct := l\<rparr>;
            s = s\<lparr>rct_trigs := (rct_trigs s)[nat l := trigger]\<rparr>;
            s = s\<lparr>rct_calls := (rct_calls s)[nat l := callback]\<rparr>;
            s = s\<lparr>rct_tTimeouts := (rct_tTimeouts s)[nat l := timeout]\<rparr>;
            s = s\<lparr>rct_tDelays := (rct_tDelays s)[nat l := delay]\<rparr>;
            s = s\<lparr>rct_nextTrigs := (rct_nextTrigs s)[nat l := delay_start]\<rparr>;
            s = s\<lparr>rct_areActive := (rct_areActive s)[nat l := True]\<rparr>
        in (l, s))"

definition pauseSchedule :: "int \<Rightarrow> SimpleEvents \<Rightarrow> SimpleEvents" where
  "pauseSchedule schd_id s =
     (if schd_id < 0 \<or> schd_id > last_schd s then s
      else s\<lparr>schd_areActive := (schd_areActive s)[nat schd_id := False]\<rparr>)"

definition pauseTrigger :: "int \<Rightarrow> SimpleEvents \<Rightarrow> SimpleEvents" where
  "pauseTrigger rct_id s =
     (if rct_id < 0 \<or> rct_id > last_rct s then s
      else s\<lparr>rct_areActive := (rct_areActive s)[nat rct_id := False]\<rparr>)"

definition resumeSchedule ::
  "ulong \<Rightarrow> int \<Rightarrow> ulong \<Rightarrow> bool \<Rightarrow> SimpleEvents \<Rightarrow> SimpleEvents" where
  "resumeSchedule clk schd_id timestamp absolute s =
     (if schd_id < 0 \<or> schd_id > last_schd s then s
      else
        let timestamp = (if \<not> absolute then timestamp + clk else timestamp);
            s = s\<lparr>schd_areActive := (schd_areActive s)[nat schd_id := True]\<rparr>
        in s\<lparr>schd_nextCalls := (schd_nextCalls s)[nat schd_id := timestamp]\<rparr>)"

definition resumeTrigger ::
  "ulong \<Rightarrow> int \<Rightarrow> ulong \<Rightarrow> bool \<Rightarrow> SimpleEvents \<Rightarrow> SimpleEvents" where
  "resumeTrigger clk rct_id timestamp absolute s =
     (if rct_id < 0 \<or> rct_id > last_rct s then s
      else
        let timestamp = (if \<not> absolute then timestamp + clk else timestamp);
            s = s\<lparr>rct_areActive := (rct_areActive s)[nat rct_id := True]\<rparr>
        in s\<lparr>rct_nextTrigs := (rct_nextTrigs s)[nat rct_id := timestamp]\<rparr>)"

definition cancelReaction ::
  "ulong \<Rightarrow> int \<Rightarrow> ulong \<Rightarrow> bool \<Rightarrow> SimpleEvents \<Rightarrow> SimpleEvents" where
  "cancelReaction clk rct_id timestamp absolute s =
     (if rct_id < 0 \<or> rct_id > last_rct s then s
      else
        let timestamp = (if \<not> absolute then timestamp + clk else timestamp);
            s = s\<lparr>rct_nextTrigs := (rct_nextTrigs s)[nat rct_id := timestamp]\<rparr>
        in s\<lparr>rct_areTrigged := (rct_areTrigged s)[nat rct_id := False]\<rparr>)"

definition stopReaction :: "int \<Rightarrow> SimpleEvents \<Rightarrow> SimpleEvents" where
  "stopReaction rct_id s =
     (if rct_id < 0 \<or> rct_id > last_rct s then s
      else s\<lparr>rct_areTrigged := (rct_areTrigged s)[nat rct_id := False]\<rparr>)"

text \<open>The two loops of \<^verbatim>\<open>begin()\<close>, each from its index \<open>i\<close> on.\<close>

function begin_schd :: "ulong \<Rightarrow> int \<Rightarrow> SimpleEvents \<Rightarrow> SimpleEvents" where
  "begin_schd now i s =
     (if i \<le> last_schd s
      then begin_schd now (i + 1)
             (s\<lparr>schd_nextCalls := (schd_nextCalls s)[nat i := schd_nextCalls s ! nat i + now]\<rparr>)
      else s)"
  by pat_completeness auto
termination
  by (relation "measure (\<lambda>(now, i, s). nat (last_schd s + 1 - i))") auto

function begin_rct :: "ulong \<Rightarrow> int \<Rightarrow> SimpleEvents \<Rightarrow> SimpleEvents" where
  "begin_rct now i s =
     (if i \<le> last_rct s
      then begin_rct now (i + 1)
             (s\<lparr>rct_nextTrigs := (rct_nextTrigs s)[nat i := rct_nextTrigs s ! nat i + now]\<rparr>)
      else s)"
  by pat_completeness auto
termination
  by (relation "measure (\<lambda>(now, i, s). nat (last_rct s + 1 - i))") auto

definition begin_events :: "ulong \<Rightarrow> SimpleEvents \<Rightarrow> SimpleEvents" where
  "begin_events clk s = (let now = clk in begin_rct now 0 (begin_schd now 0 s))"

section \<open>Callbacks and the clock\<close>

text \<open>
  The actions and predicates are functions of the sketch, called through the stored
  pointers. Such a function changes the sketch's own state (the world \<open>'w\<close>: pins,
  globals, the hardware clock) and may call the public methods of the instance, which
  is how the documentation's self-manipulating callbacks work. Its behaviour from a
  given world is therefore a tree: either it returns (\<open>Ret\<close>), or it makes a method
  call, at a moment when \<^verbatim>\<open>millis()\<close> would read \<open>clk\<close>, and goes on according to the
  value returned (\<open>Call\<close>). A callback that re-enters \<^verbatim>\<open>run()\<close> is outside this model.
\<close>

datatype ('c, 'r) prog = Ret 'r | Call 'c ulong "int \<Rightarrow> ('c, 'r) prog"

primrec exec ::
  "('c \<Rightarrow> ulong \<Rightarrow> 's \<Rightarrow> int \<times> 's) \<Rightarrow> ('c, 'r) prog \<Rightarrow> 's \<Rightarrow> 'r \<times> 's" where
  "exec m (Ret r) = (\<lambda>s. (r, s))"
| "exec m (Call c clk k) = (\<lambda>s. case m c clk s of (v, s') \<Rightarrow> exec m (k v) s')"

text \<open>A property that every method keeps is kept by every callback.\<close>

lemma exec_invariant:
  assumes "\<And>c clk s. P s \<Longrightarrow> P (snd (m c clk s))" and "P s"
  shows "P (snd (exec m p s))"
  using assms(2)
proof (induction p arbitrary: s)
  case (Ret r)
  then show ?case by simp
next
  case (Call c clk k)
  obtain v s' where m: "m c clk s = (v, s')" by (cases "m c clk s")
  then have "P s'" using assms(1) [OF Call.prems, of c clk] by simp
  then have "P (snd (exec m (k v) s'))" using Call.IH by blast
  then show ?case using m by simp
qed

record ('c, 'w) env =
  action :: "fnptr \<Rightarrow> 'w \<Rightarrow> ('c, 'w) prog"
  check :: "fnptr \<Rightarrow> 'w \<Rightarrow> ('c, bool \<times> 'w) prog"
  millis :: "'w \<Rightarrow> ulong"

text \<open>The public methods of \<^verbatim>\<open>SimpleEvents\<close> as calls; a \<^verbatim>\<open>void\<close> method returns 0.\<close>

datatype call =
    AddSchedule fnptr ulong ulong
  | AddReaction fnptr fnptr ulong ulong ulong
  | PauseSchedule int
  | PauseTrigger int
  | ResumeSchedule int ulong bool
  | ResumeTrigger int ulong bool
  | StopReaction int
  | CancelReaction int ulong bool
  | Begin

fun api :: "int \<Rightarrow> int \<Rightarrow> call \<Rightarrow> ulong \<Rightarrow> SimpleEvents \<Rightarrow> int \<times> SimpleEvents" where
  "api T_MAX R_MAX (AddSchedule cb iv d0) clk s = addSchedule T_MAX cb iv d0 s"
| "api T_MAX R_MAX (AddReaction tr cb tout dly d0) clk s = addReaction R_MAX tr cb tout dly d0 s"
| "api T_MAX R_MAX (PauseSchedule i) clk s = (0, pauseSchedule i s)"
| "api T_MAX R_MAX (PauseTrigger i) clk s = (0, pauseTrigger i s)"
| "api T_MAX R_MAX (ResumeSchedule i ts ab) clk s = (0, resumeSchedule clk i ts ab s)"
| "api T_MAX R_MAX (ResumeTrigger i ts ab) clk s = (0, resumeTrigger clk i ts ab s)"
| "api T_MAX R_MAX (StopReaction i) clk s = (0, stopReaction i s)"
| "api T_MAX R_MAX (CancelReaction i ts ab) clk s = (0, cancelReaction clk i ts ab s)"
| "api T_MAX R_MAX Begin clk s = (0, begin_events clk s)"

text \<open>
  No method lowers a high-water mark, and none raises it beyond the last index of its
  table. This is what makes the loops of \<^verbatim>\<open>run()\<close>, which read the mark again at
  every iteration, come to an end whatever the callbacks do.
\<close>

declare begin_schd.simps [simp del] begin_rct.simps [simp del]

lemma begin_schd_last [simp]:
  "last_schd (begin_schd now i s) = last_schd s" "last_rct (begin_schd now i s) = last_rct s"
  by (induction now i s rule: begin_schd.induct; subst begin_schd.simps; simp)+

lemma begin_rct_last [simp]:
  "last_schd (begin_rct now i s) = last_schd s" "last_rct (begin_rct now i s) = last_rct s"
  by (induction now i s rule: begin_rct.induct; subst begin_rct.simps; simp)+

lemmas method_defs =
  addSchedule_def addReaction_def pauseSchedule_def pauseTrigger_def
  resumeSchedule_def resumeTrigger_def stopReaction_def cancelReaction_def

lemma api_last_schd: "last_schd (snd (api T R c clk s)) \<le> max (last_schd s) (T - 1)"
  by (cases c) (auto simp: method_defs begin_events_def Let_def)

lemma api_last_rct: "last_rct (snd (api T R c clk s)) \<le> max (last_rct s) (R - 1)"
  by (cases c) (auto simp: method_defs begin_events_def Let_def)

lemma exec_last_schd:
  "last_schd (snd (exec (api T R) p s)) \<le> max (last_schd s) (T - 1)"
proof (induction p arbitrary: s)
  case (Ret r)
  then show ?case by simp
next
  case (Call c clk k)
  obtain v s' where m: "api T R c clk s = (v, s')" by (cases "api T R c clk s")
  have "last_schd s' \<le> max (last_schd s) (T - 1)"
    using api_last_schd [of T R c clk s] m by simp
  moreover have "last_schd (snd (exec (api T R) (k v) s')) \<le> max (last_schd s') (T - 1)"
    using Call.IH by blast
  ultimately show ?case using m by simp
qed

lemma exec_last_rct:
  "last_rct (snd (exec (api T R) p s)) \<le> max (last_rct s) (R - 1)"
proof (induction p arbitrary: s)
  case (Ret r)
  then show ?case by simp
next
  case (Call c clk k)
  obtain v s' where m: "api T R c clk s = (v, s')" by (cases "api T R c clk s")
  have "last_rct s' \<le> max (last_rct s) (R - 1)"
    using api_last_rct [of T R c clk s] m by simp
  moreover have "last_rct (snd (exec (api T R) (k v) s')) \<le> max (last_rct s') (R - 1)"
    using Call.IH by blast
  ultimately show ?case using m by simp
qed

section \<open>SimpleEvents: one tick\<close>

text \<open>
  A configuration is the sketch's world, the instance, and the sequence of calls
  through function pointers that \<^verbatim>\<open>run()\<close> has made so far (which call, for which
  entry; for a predicate, what it returned). The trace is an observation: no method
  reads it.
\<close>

datatype event =
    ScheduleRun int
  | PendingRun int
  | TriggerTest int bool
  | DirectRun int

record ('s, 'w) conf =
  world :: 'w
  eng :: 's
  trace :: "event list"

text \<open>The body of the first loop of \<^verbatim>\<open>run()\<close> at index \<open>i\<close>, and the loop from \<open>i\<close> on.\<close>

definition run_schd_body ::
  "(call, 'w) env \<Rightarrow> int \<Rightarrow> int \<Rightarrow> ulong \<Rightarrow> int \<Rightarrow> (SimpleEvents, 'w) conf
     \<Rightarrow> (SimpleEvents, 'w) conf" where
  "run_schd_body E T_MAX R_MAX now i c =
     (let s = eng c; k = nat i in
      if schd_areActive s ! k \<and> schd_nextCalls s ! k < now then
        let s = s\<lparr>schd_nextCalls := (schd_nextCalls s)[k := schd_nextCalls s ! k + schd_tIntrvls s ! k]\<rparr>;
            (w, s) = exec (api T_MAX R_MAX) (action E (schd_calls s ! k) (world c)) s
        in \<lparr>world = w, eng = s, trace = trace c @ [ScheduleRun i]\<rparr>
      else c)"

text \<open>The body of the second loop: pending reactions that are due.\<close>

definition run_pend_body ::
  "(call, 'w) env \<Rightarrow> int \<Rightarrow> int \<Rightarrow> ulong \<Rightarrow> int \<Rightarrow> (SimpleEvents, 'w) conf
     \<Rightarrow> (SimpleEvents, 'w) conf" where
  "run_pend_body E T_MAX R_MAX now i c =
     (let s = eng c; k = nat i in
      if rct_areTrigged s ! k \<and> rct_nextCalls s ! k < now then
        let s = s\<lparr>rct_areTrigged := (rct_areTrigged s)[k := False]\<rparr>;
            (w, s) = exec (api T_MAX R_MAX) (action E (rct_calls s ! k) (world c)) s
        in \<lparr>world = w, eng = s, trace = trace c @ [PendingRun i]\<rparr>
      else c)"

text \<open>
  The body of the third loop. The condition is evaluated left to right and stops at
  the first false conjunct, so the predicate is called only for an active entry whose
  \<^verbatim>\<open>rct_nextTrigs\<close> is before \<open>now\<close>; what follows reads the object as the predicate
  left it.
\<close>

definition run_trig_body ::
  "(call, 'w) env \<Rightarrow> int \<Rightarrow> int \<Rightarrow> ulong \<Rightarrow> int \<Rightarrow> (SimpleEvents, 'w) conf
     \<Rightarrow> (SimpleEvents, 'w) conf" where
  "run_trig_body E T_MAX R_MAX now i c =
     (let s = eng c; k = nat i in
      if rct_areActive s ! k \<and> rct_nextTrigs s ! k < now then
        let ((b, w), s) = exec (api T_MAX R_MAX) (check E (rct_trigs s ! k) (world c)) s;
            tr = trace c @ [TriggerTest i b]
        in
          if b then
            if rct_tDelays s ! k = 0 then
              let s = s\<lparr>rct_nextTrigs := (rct_nextTrigs s)[k := now + rct_tTimeouts s ! k]\<rparr>;
                  (w, s) = exec (api T_MAX R_MAX) (action E (rct_calls s ! k) w) s
              in \<lparr>world = w, eng = s, trace = tr @ [DirectRun i]\<rparr>
            else
              let s = s\<lparr>rct_nextTrigs := (rct_nextTrigs s)[k := now + rct_tTimeouts s ! k]\<rparr>;
                  s = s\<lparr>rct_nextCalls := (rct_nextCalls s)[k := now + rct_tDelays s ! k]\<rparr>;
                  s = s\<lparr>rct_areTrigged := (rct_areTrigged s)[k := True]\<rparr>
              in \<lparr>world = w, eng = s, trace = tr\<rparr>
          else \<lparr>world = w, eng = s, trace = tr\<rparr>
      else c)"

lemma run_schd_body_last:
  "last_schd (eng (run_schd_body E T R now i c)) \<le> max (last_schd (eng c)) (T - 1)"
  unfolding run_schd_body_def Let_def split_beta
  by (auto intro!: order_trans [OF exec_last_schd])

lemma run_pend_body_last:
  "last_rct (eng (run_pend_body E T R now i c)) \<le> max (last_rct (eng c)) (R - 1)"
  unfolding run_pend_body_def Let_def split_beta
  by (auto intro!: order_trans [OF exec_last_rct])

lemma run_trig_body_last:
  "last_rct (eng (run_trig_body E T R now i c)) \<le> max (last_rct (eng c)) (R - 1)"
proof -
  have a: "last_rct (snd (exec (api T R) p s)) \<le> max (last_rct s) (R - 1)" for p s
    by (rule exec_last_rct)
  have b: "last_rct (snd (exec (api T R) q (snd (exec (api T R) p s)\<lparr>rct_nextTrigs := xs\<rparr>)))
          \<le> max (last_rct s) (R - 1)" for p q s xs
    using exec_last_rct [of T R q "snd (exec (api T R) p s)\<lparr>rct_nextTrigs := xs\<rparr>"]
      a [of p s] by simp
  show ?thesis
    unfolding run_trig_body_def Let_def split_beta
    by (auto intro: a b)
qed

text \<open>The three loops of \<^verbatim>\<open>run()\<close>, each from its index \<open>i\<close> on.\<close>

function run_schd ::
  "(call, 'w) env \<Rightarrow> int \<Rightarrow> int \<Rightarrow> ulong \<Rightarrow> int \<Rightarrow> (SimpleEvents, 'w) conf
     \<Rightarrow> (SimpleEvents, 'w) conf" where
  "run_schd E T_MAX R_MAX now i c =
     (if i \<le> last_schd (eng c)
      then run_schd E T_MAX R_MAX now (i + 1) (run_schd_body E T_MAX R_MAX now i c)
      else c)"
  by pat_completeness auto
termination
proof (relation "measure (\<lambda>(E, T, R, now, i, c). nat (max (last_schd (eng c)) (T - 1) + 1 - i))")
  show "wf (measure (\<lambda>(E, T, R, now, i, c). nat (max (last_schd (eng c)) (T - 1) + 1 - i)))"
    by simp
next
  fix E :: "(call, 'w) env" and T R :: int and now :: ulong and i :: int
    and c :: "(SimpleEvents, 'w) conf"
  assume "i \<le> last_schd (eng c)"
  then show "((E, T, R, now, i + 1, run_schd_body E T R now i c), (E, T, R, now, i, c))
      \<in> measure (\<lambda>(E, T, R, now, i, c). nat (max (last_schd (eng c)) (T - 1) + 1 - i))"
    using run_schd_body_last [of E T R now i c] by simp
qed

function run_pend ::
  "(call, 'w) env \<Rightarrow> int \<Rightarrow> int \<Rightarrow> ulong \<Rightarrow> int \<Rightarrow> (SimpleEvents, 'w) conf
     \<Rightarrow> (SimpleEvents, 'w) conf" where
  "run_pend E T_MAX R_MAX now i c =
     (if i \<le> last_rct (eng c)
      then run_pend E T_MAX R_MAX now (i + 1) (run_pend_body E T_MAX R_MAX now i c)
      else c)"
  by pat_completeness auto
termination
proof (relation "measure (\<lambda>(E, T, R, now, i, c). nat (max (last_rct (eng c)) (R - 1) + 1 - i))")
  show "wf (measure (\<lambda>(E, T, R, now, i, c). nat (max (last_rct (eng c)) (R - 1) + 1 - i)))"
    by simp
next
  fix E :: "(call, 'w) env" and T R :: int and now :: ulong and i :: int
    and c :: "(SimpleEvents, 'w) conf"
  assume "i \<le> last_rct (eng c)"
  then show "((E, T, R, now, i + 1, run_pend_body E T R now i c), (E, T, R, now, i, c))
      \<in> measure (\<lambda>(E, T, R, now, i, c). nat (max (last_rct (eng c)) (R - 1) + 1 - i))"
    using run_pend_body_last [of E T R now i c] by simp
qed

function run_trig ::
  "(call, 'w) env \<Rightarrow> int \<Rightarrow> int \<Rightarrow> ulong \<Rightarrow> int \<Rightarrow> (SimpleEvents, 'w) conf
     \<Rightarrow> (SimpleEvents, 'w) conf" where
  "run_trig E T_MAX R_MAX now i c =
     (if i \<le> last_rct (eng c)
      then run_trig E T_MAX R_MAX now (i + 1) (run_trig_body E T_MAX R_MAX now i c)
      else c)"
  by pat_completeness auto
termination
proof (relation "measure (\<lambda>(E, T, R, now, i, c). nat (max (last_rct (eng c)) (R - 1) + 1 - i))")
  show "wf (measure (\<lambda>(E, T, R, now, i, c). nat (max (last_rct (eng c)) (R - 1) + 1 - i)))"
    by simp
next
  fix E :: "(call, 'w) env" and T R :: int and now :: ulong and i :: int
    and c :: "(SimpleEvents, 'w) conf"
  assume "i \<le> last_rct (eng c)"
  then show "((E, T, R, now, i + 1, run_trig_body E T R now i c), (E, T, R, now, i, c))
      \<in> measure (\<lambda>(E, T, R, now, i, c). nat (max (last_rct (eng c)) (R - 1) + 1 - i))"
    using run_trig_body_last [of E T R now i c] by simp
qed

declare run_schd.simps [simp del] run_pend.simps [simp del] run_trig.simps [simp del]

text \<open>
  \<^verbatim>\<open>run()\<close>: the clock is read into \<open>now\<close>, then the three loops run one after the
  other, each from index 0.
\<close>

definition run ::
  "(call, 'w) env \<Rightarrow> int \<Rightarrow> int \<Rightarrow> (SimpleEvents, 'w) conf \<Rightarrow> (SimpleEvents, 'w) conf" where
  "run E T_MAX R_MAX c =
     (let now = millis E (world c);
          c = run_schd E T_MAX R_MAX now 0 c;
          c = run_pend E T_MAX R_MAX now 0 c
      in run_trig E T_MAX R_MAX now 0 c)"

section \<open>TinyEvents: the data members\<close>

text \<open>
  The private members of \<^verbatim>\<open>class TinyEvents\<close>; a member that has a namesake in
  \<^verbatim>\<open>SimpleEvents\<close> carries the suffix \<open>_t\<close>, as do the methods below. The template types
  \<^verbatim>\<open>TDur_t\<close> and \<^verbatim>\<open>TWait_t\<close> are the record's type parameters; the methods use them
  at unsigned integers of any width (\<open>'d word\<close> and \<open>'t word\<close>), converted to \<^verbatim>\<open>unsigned long\<close> where the code casts them. Ids and
  the high-water marks are \<^verbatim>\<open>int8_t\<close>; as before nothing is computed with them
  beyond \<open>last + 1\<close> and, for a checked id, \<^verbatim>\<open>id / 8\<close> and \<^verbatim>\<open>id % 8\<close>, which on a
  non-negative id are \<open>div\<close> and \<open>mod\<close>. The pending flags are packed eight to a byte.
\<close>

record ('d, 't) TinyEvents =
  last_schd_t :: int
  last_rct_t :: int
  last_case_t :: int
  schd_calls_t :: "fnptr list"
  rct_calls_t :: "fnptr list"
  rct_trigs_t :: "fnptr list"
  schd_tIntrvls_t :: "'d list"
  rct_tTimeouts_t :: "'t list"
  rct_tDelays_t :: "'t list"
  rct_areTrigged_t :: "8 word list"
  schd_nextCalls_t :: "ulong list"
  rct_nextTrigs_t :: "ulong list"
  rct_nextCalls_t :: "ulong list"

definition init_t :: "int \<Rightarrow> int \<Rightarrow> ('d::len word, 't::len word) TinyEvents" where
  "init_t T_MAX R_MAX =
     \<lparr> last_schd_t = - 1, last_rct_t = - 1, last_case_t = - 1,
       schd_calls_t = replicate (nat T_MAX) 0,
       rct_calls_t = replicate (nat R_MAX) 0,
       rct_trigs_t = replicate (nat R_MAX) 0,
       schd_tIntrvls_t = replicate (nat T_MAX) 0,
       rct_tTimeouts_t = replicate (nat R_MAX) 0,
       rct_tDelays_t = replicate (nat R_MAX) 0,
       rct_areTrigged_t = replicate (nat ((7 + R_MAX) div 8)) 0,
       schd_nextCalls_t = replicate (nat T_MAX) 0,
       rct_nextTrigs_t = replicate (nat R_MAX) 0,
       rct_nextCalls_t = replicate (nat R_MAX) 0 \<rparr>"

definition class_inv_t :: "int \<Rightarrow> int \<Rightarrow> ('d::len word, 't::len word) TinyEvents \<Rightarrow> bool" where
  "class_inv_t T_MAX R_MAX s \<longleftrightarrow>
     - 1 \<le> last_schd_t s \<and> last_schd_t s < T_MAX \<and>
     - 1 \<le> last_rct_t s \<and> last_rct_t s < R_MAX \<and>
     length (schd_calls_t s) = nat T_MAX \<and>
     length (schd_tIntrvls_t s) = nat T_MAX \<and>
     length (schd_nextCalls_t s) = nat T_MAX \<and>
     length (rct_calls_t s) = nat R_MAX \<and>
     length (rct_trigs_t s) = nat R_MAX \<and>
     length (rct_tTimeouts_t s) = nat R_MAX \<and>
     length (rct_tDelays_t s) = nat R_MAX \<and>
     length (rct_areTrigged_t s) = nat ((7 + R_MAX) div 8) \<and>
     length (rct_nextTrigs_t s) = nat R_MAX \<and>
     length (rct_nextCalls_t s) = nat R_MAX"

section \<open>TinyEvents: adding hooks and the control operations\<close>

definition addSchedule_t ::
  "int \<Rightarrow> fnptr \<Rightarrow> 'd word \<Rightarrow> ulong \<Rightarrow> ('d::len word, 't::len word) TinyEvents
     \<Rightarrow> int \<times> ('d word, 't word) TinyEvents" where
  "addSchedule_t T_MAX callback interval delay_start s =
     (if last_schd_t s > T_MAX - 2 then (- 1, s)
      else
        let l = last_schd_t s + 1;
            s = s\<lparr>last_schd_t := l\<rparr>;
            s = s\<lparr>schd_calls_t := (schd_calls_t s)[nat l := callback]\<rparr>;
            s = s\<lparr>schd_tIntrvls_t := (schd_tIntrvls_t s)[nat l := interval]\<rparr>;
            s = s\<lparr>schd_nextCalls_t := (schd_nextCalls_t s)[nat l := delay_start]\<rparr>
        in (l, s))"

definition addReaction_t ::
  "int \<Rightarrow> fnptr \<Rightarrow> fnptr \<Rightarrow> 't word \<Rightarrow> 't word \<Rightarrow> ulong \<Rightarrow> ('d::len word, 't::len word) TinyEvents
     \<Rightarrow> int \<times> ('d word, 't word) TinyEvents" where
  "addReaction_t R_MAX trigger callback timeout delay delay_start s =
     (if last_rct_t s > R_MAX - 2 then (- 1, s)
      else
        let l = last_rct_t s + 1;
            s = s\<lparr>last_rct_t := l\<rparr>;
            s = s\<lparr>rct_trigs_t := (rct_trigs_t s)[nat l := trigger]\<rparr>;
            s = s\<lparr>rct_calls_t := (rct_calls_t s)[nat l := callback]\<rparr>;
            s = s\<lparr>rct_tTimeouts_t := (rct_tTimeouts_t s)[nat l := timeout]\<rparr>;
            s = s\<lparr>rct_tDelays_t := (rct_tDelays_t s)[nat l := delay]\<rparr>;
            s = s\<lparr>rct_nextTrigs_t := (rct_nextTrigs_t s)[nat l := delay_start]\<rparr>
        in (l, s))"

text \<open>
  The three operations on one pending flag: \<^verbatim>\<open>a[i/8] & (0x01 << (i%8))\<close> compared
  with 0, \<^verbatim>\<open>a[i/8] &= ~(0x01 << (i%8))\<close> and \<^verbatim>\<open>a[i/8] |= (0x01 << (i%8))\<close>.
\<close>

definition trigged :: "8 word list \<Rightarrow> int \<Rightarrow> bool" where
  "trigged a i \<longleftrightarrow> (a ! nat (i div 8)) AND push_bit (nat (i mod 8)) 1 \<noteq> 0"

definition clear_trigged :: "8 word list \<Rightarrow> int \<Rightarrow> 8 word list" where
  "clear_trigged a i =
     a[nat (i div 8) := (a ! nat (i div 8)) AND NOT (push_bit (nat (i mod 8)) 1)]"

definition set_trigged :: "8 word list \<Rightarrow> int \<Rightarrow> 8 word list" where
  "set_trigged a i =
     a[nat (i div 8) := (a ! nat (i div 8)) OR push_bit (nat (i mod 8)) 1]"

definition cancelReaction_t ::
  "ulong \<Rightarrow> int \<Rightarrow> int \<Rightarrow> ulong \<Rightarrow> int \<Rightarrow> ('d::len word, 't::len word) TinyEvents
     \<Rightarrow> ('d word, 't word) TinyEvents" where
  "cancelReaction_t clk rct_id reset_debounce timestamp absolute s =
     (if rct_id < 0 \<or> rct_id > last_rct_t s then s
      else
        let s = (if reset_debounce > 0
                 then let timestamp = (if absolute < 1 then timestamp + clk else timestamp)
                      in s\<lparr>rct_nextTrigs_t := (rct_nextTrigs_t s)[nat rct_id := timestamp]\<rparr>
                 else s)
        in s\<lparr>rct_areTrigged_t := clear_trigged (rct_areTrigged_t s) rct_id\<rparr>)"

definition setNextSchedule_t ::
  "ulong \<Rightarrow> int \<Rightarrow> ulong \<Rightarrow> int \<Rightarrow> ('d::len word, 't::len word) TinyEvents \<Rightarrow> ('d word, 't word) TinyEvents" where
  "setNextSchedule_t clk schd_id timestamp absolute s =
     (if schd_id < 0 \<or> schd_id > last_schd_t s then s
      else
        let timestamp = (if absolute < 1 then timestamp + clk else timestamp)
        in s\<lparr>schd_nextCalls_t := (schd_nextCalls_t s)[nat schd_id := timestamp]\<rparr>)"

definition setNextTrigger_t ::
  "ulong \<Rightarrow> int \<Rightarrow> ulong \<Rightarrow> int \<Rightarrow> ('d::len word, 't::len word) TinyEvents \<Rightarrow> ('d word, 't word) TinyEvents" where
  "setNextTrigger_t clk rct_id timestamp absolute s =
     (if rct_id < 0 \<or> rct_id > last_rct_t s then s
      else
        let timestamp = (if absolute < 1 then timestamp + clk else timestamp)
        in s\<lparr>rct_nextTrigs_t := (rct_nextTrigs_t s)[nat rct_id := timestamp]\<rparr>)"

function begin_schd_t ::
  "ulong \<Rightarrow> int \<Rightarrow> ('d::len word, 't::len word) TinyEvents \<Rightarrow> ('d word, 't word) TinyEvents" where
  "begin_schd_t now i s =
     (if i \<le> last_schd_t s
      then begin_schd_t now (i + 1)
             (s\<lparr>schd_nextCalls_t :=
                  (schd_nextCalls_t s)[nat i := schd_nextCalls_t s ! nat i + now]\<rparr>)
      else s)"
  by pat_completeness auto
termination
  by (relation "measure (\<lambda>(now, i, s). nat (last_schd_t s + 1 - i))") auto

function begin_rct_t ::
  "ulong \<Rightarrow> int \<Rightarrow> ('d::len word, 't::len word) TinyEvents \<Rightarrow> ('d word, 't word) TinyEvents" where
  "begin_rct_t now i s =
     (if i \<le> last_rct_t s
      then begin_rct_t now (i + 1)
             (s\<lparr>rct_nextTrigs_t :=
                  (rct_nextTrigs_t s)[nat i := rct_nextTrigs_t s ! nat i + now]\<rparr>)
      else s)"
  by pat_completeness auto
termination
  by (relation "measure (\<lambda>(now, i, s). nat (last_rct_t s + 1 - i))") auto

declare begin_schd_t.simps [simp del] begin_rct_t.simps [simp del]

definition begin_events_t ::
  "ulong \<Rightarrow> ('d::len word, 't::len word) TinyEvents \<Rightarrow> ('d word, 't word) TinyEvents" where
  "begin_events_t clk s = (let now = clk in begin_rct_t now 0 (begin_schd_t now 0 s))"

text \<open>The public methods of \<^verbatim>\<open>TinyEvents\<close> as calls.\<close>

datatype ('d, 't) tcall =
    TAddSchedule fnptr 'd ulong
  | TAddReaction fnptr fnptr 't 't ulong
  | TCancelReaction int int ulong int
  | TSetNextSchedule int ulong int
  | TSetNextTrigger int ulong int
  | TBegin

fun api_t ::
  "int \<Rightarrow> int \<Rightarrow> ('d::len word, 't::len word) tcall \<Rightarrow> ulong \<Rightarrow> ('d word, 't word) TinyEvents
     \<Rightarrow> int \<times> ('d word, 't word) TinyEvents" where
  "api_t T_MAX R_MAX (TAddSchedule cb iv d0) clk s = addSchedule_t T_MAX cb iv d0 s"
| "api_t T_MAX R_MAX (TAddReaction tr cb tout dly d0) clk s =
     addReaction_t R_MAX tr cb tout dly d0 s"
| "api_t T_MAX R_MAX (TCancelReaction i rd ts ab) clk s = (0, cancelReaction_t clk i rd ts ab s)"
| "api_t T_MAX R_MAX (TSetNextSchedule i ts ab) clk s = (0, setNextSchedule_t clk i ts ab s)"
| "api_t T_MAX R_MAX (TSetNextTrigger i ts ab) clk s = (0, setNextTrigger_t clk i ts ab s)"
| "api_t T_MAX R_MAX TBegin clk s = (0, begin_events_t clk s)"

lemma begin_schd_t_last [simp]:
  "last_schd_t (begin_schd_t now i s) = last_schd_t s"
  "last_rct_t (begin_schd_t now i s) = last_rct_t s"
  by (induction now i s rule: begin_schd_t.induct; subst begin_schd_t.simps; simp)+

lemma begin_rct_t_last [simp]:
  "last_schd_t (begin_rct_t now i s) = last_schd_t s"
  "last_rct_t (begin_rct_t now i s) = last_rct_t s"
  by (induction now i s rule: begin_rct_t.induct; subst begin_rct_t.simps; simp)+

lemmas method_t_defs =
  addSchedule_t_def addReaction_t_def cancelReaction_t_def setNextSchedule_t_def
  setNextTrigger_t_def

lemma api_t_last_schd:
  "last_schd_t (snd (api_t T R c clk s)) \<le> max (last_schd_t s) (T - 1)"
  by (cases c) (auto simp: method_t_defs begin_events_t_def Let_def)

lemma api_t_last_rct:
  "last_rct_t (snd (api_t T R c clk s)) \<le> max (last_rct_t s) (R - 1)"
  by (cases c) (auto simp: method_t_defs begin_events_t_def Let_def)

lemma exec_t_last_schd:
  "last_schd_t (snd (exec (api_t T R) p s)) \<le> max (last_schd_t s) (T - 1)"
proof (rule exec_invariant [where P = "\<lambda>s'. last_schd_t s' \<le> max (last_schd_t s) (T - 1)"])
  fix c clk and sa :: "('a word, 'b word) TinyEvents"
  assume "last_schd_t sa \<le> max (last_schd_t s) (T - 1)"
  then show "last_schd_t (snd (api_t T R c clk sa)) \<le> max (last_schd_t s) (T - 1)"
    using api_t_last_schd [of T R c clk sa] by simp
qed simp

lemma exec_t_last_rct:
  "last_rct_t (snd (exec (api_t T R) p s)) \<le> max (last_rct_t s) (R - 1)"
proof (rule exec_invariant [where P = "\<lambda>s'. last_rct_t s' \<le> max (last_rct_t s) (R - 1)"])
  fix c clk and sa :: "('a word, 'b word) TinyEvents"
  assume "last_rct_t sa \<le> max (last_rct_t s) (R - 1)"
  then show "last_rct_t (snd (api_t T R c clk sa)) \<le> max (last_rct_t s) (R - 1)"
    using api_t_last_rct [of T R c clk sa] by simp
qed simp

section \<open>TinyEvents: one tick\<close>

text \<open>
  The three loop bodies of \<^verbatim>\<open>TinyEvents::run()\<close>. There are no activity flags: a
  schedule is due, and a trigger is checked, on the timestamp alone.
\<close>

definition run_schd_body_t ::
  "(('d::len word, 't::len word) tcall, 'w) env \<Rightarrow> int \<Rightarrow> int \<Rightarrow> ulong \<Rightarrow> int
     \<Rightarrow> (('d word, 't word) TinyEvents, 'w) conf \<Rightarrow> (('d word, 't word) TinyEvents, 'w) conf" where
  "run_schd_body_t E T_MAX R_MAX now i c =
     (let s = eng c; k = nat i in
      if schd_nextCalls_t s ! k < now then
        let s = s\<lparr>schd_nextCalls_t :=
                    (schd_nextCalls_t s)[k := schd_nextCalls_t s ! k + ucast (schd_tIntrvls_t s ! k)]\<rparr>;
            (w, s) = exec (api_t T_MAX R_MAX) (action E (schd_calls_t s ! k) (world c)) s
        in \<lparr>world = w, eng = s, trace = trace c @ [ScheduleRun i]\<rparr>
      else c)"

definition run_pend_body_t ::
  "(('d::len word, 't::len word) tcall, 'w) env \<Rightarrow> int \<Rightarrow> int \<Rightarrow> ulong \<Rightarrow> int
     \<Rightarrow> (('d word, 't word) TinyEvents, 'w) conf \<Rightarrow> (('d word, 't word) TinyEvents, 'w) conf" where
  "run_pend_body_t E T_MAX R_MAX now i c =
     (let s = eng c; k = nat i in
      if trigged (rct_areTrigged_t s) i \<and> rct_nextCalls_t s ! k < now then
        let s = s\<lparr>rct_areTrigged_t := clear_trigged (rct_areTrigged_t s) i\<rparr>;
            (w, s) = exec (api_t T_MAX R_MAX) (action E (rct_calls_t s ! k) (world c)) s
        in \<lparr>world = w, eng = s, trace = trace c @ [PendingRun i]\<rparr>
      else c)"

definition run_trig_body_t ::
  "(('d::len word, 't::len word) tcall, 'w) env \<Rightarrow> int \<Rightarrow> int \<Rightarrow> ulong \<Rightarrow> int
     \<Rightarrow> (('d word, 't word) TinyEvents, 'w) conf \<Rightarrow> (('d word, 't word) TinyEvents, 'w) conf" where
  "run_trig_body_t E T_MAX R_MAX now i c =
     (let s = eng c; k = nat i in
      if rct_nextTrigs_t s ! k < now then
        let ((b, w), s) = exec (api_t T_MAX R_MAX) (check E (rct_trigs_t s ! k) (world c)) s;
            tr = trace c @ [TriggerTest i b]
        in
          if b then
            if rct_tDelays_t s ! k = 0 then
              let s = s\<lparr>rct_nextTrigs_t :=
                          (rct_nextTrigs_t s)[k := now + ucast (rct_tTimeouts_t s ! k)]\<rparr>;
                  (w, s) = exec (api_t T_MAX R_MAX) (action E (rct_calls_t s ! k) w) s
              in \<lparr>world = w, eng = s, trace = tr @ [DirectRun i]\<rparr>
            else
              let s = s\<lparr>rct_nextTrigs_t :=
                          (rct_nextTrigs_t s)[k := now + ucast (rct_tTimeouts_t s ! k)]\<rparr>;
                  s = s\<lparr>rct_nextCalls_t :=
                          (rct_nextCalls_t s)[k := now + ucast (rct_tDelays_t s ! k)]\<rparr>;
                  s = s\<lparr>rct_areTrigged_t := set_trigged (rct_areTrigged_t s) i\<rparr>
              in \<lparr>world = w, eng = s, trace = tr\<rparr>
          else \<lparr>world = w, eng = s, trace = tr\<rparr>
      else c)"

lemma run_schd_body_t_last:
  "last_schd_t (eng (run_schd_body_t E T R now i c)) \<le> max (last_schd_t (eng c)) (T - 1)"
  unfolding run_schd_body_t_def Let_def split_beta
  by (auto intro!: order_trans [OF exec_t_last_schd])

lemma run_pend_body_t_last:
  "last_rct_t (eng (run_pend_body_t E T R now i c)) \<le> max (last_rct_t (eng c)) (R - 1)"
  unfolding run_pend_body_t_def Let_def split_beta
  by (auto intro!: order_trans [OF exec_t_last_rct])

lemma run_trig_body_t_last:
  "last_rct_t (eng (run_trig_body_t E T R now i c)) \<le> max (last_rct_t (eng c)) (R - 1)"
proof -
  have a: "last_rct_t (snd (exec (api_t T R) p s)) \<le> max (last_rct_t s) (R - 1)"
    for p :: "(('a word, 'b word) tcall, 'r) prog" and s
    by (rule exec_t_last_rct)
  have b: "last_rct_t (snd (exec (api_t T R) q
             (snd (exec (api_t T R) p s)\<lparr>rct_nextTrigs_t := xs\<rparr>)))
          \<le> max (last_rct_t s) (R - 1)"
    for p :: "(('a word, 'b word) tcall, 'r) prog" and q :: "(('a word, 'b word) tcall, 'q) prog"
      and s xs
    using exec_t_last_rct [of T R q "snd (exec (api_t T R) p s)\<lparr>rct_nextTrigs_t := xs\<rparr>"]
      a [of p s] by simp
  show ?thesis
    unfolding run_trig_body_t_def Let_def split_beta
    by (auto intro: a b)
qed

function run_schd_t ::
  "(('d::len word, 't::len word) tcall, 'w) env \<Rightarrow> int \<Rightarrow> int \<Rightarrow> ulong \<Rightarrow> int
     \<Rightarrow> (('d word, 't word) TinyEvents, 'w) conf \<Rightarrow> (('d word, 't word) TinyEvents, 'w) conf" where
  "run_schd_t E T_MAX R_MAX now i c =
     (if i \<le> last_schd_t (eng c)
      then run_schd_t E T_MAX R_MAX now (i + 1) (run_schd_body_t E T_MAX R_MAX now i c)
      else c)"
  by pat_completeness auto
termination
proof (relation
    "measure (\<lambda>(E, T, R, now, i, c). nat (max (last_schd_t (eng c)) (T - 1) + 1 - i))")
  show "wf (measure (\<lambda>(E, T, R, now, i, c). nat (max (last_schd_t (eng c)) (T - 1) + 1 - i)))"
    by simp
next
  fix E :: "(('d::len word, 't::len word) tcall, 'w) env" and T R :: int and now :: ulong and i :: int
    and c :: "(('d word, 't word) TinyEvents, 'w) conf"
  assume "i \<le> last_schd_t (eng c)"
  then show "((E, T, R, now, i + 1, run_schd_body_t E T R now i c), (E, T, R, now, i, c))
      \<in> measure (\<lambda>(E, T, R, now, i, c). nat (max (last_schd_t (eng c)) (T - 1) + 1 - i))"
    using run_schd_body_t_last [of E T R now i c] by simp
qed

function run_pend_t ::
  "(('d::len word, 't::len word) tcall, 'w) env \<Rightarrow> int \<Rightarrow> int \<Rightarrow> ulong \<Rightarrow> int
     \<Rightarrow> (('d word, 't word) TinyEvents, 'w) conf \<Rightarrow> (('d word, 't word) TinyEvents, 'w) conf" where
  "run_pend_t E T_MAX R_MAX now i c =
     (if i \<le> last_rct_t (eng c)
      then run_pend_t E T_MAX R_MAX now (i + 1) (run_pend_body_t E T_MAX R_MAX now i c)
      else c)"
  by pat_completeness auto
termination
proof (relation
    "measure (\<lambda>(E, T, R, now, i, c). nat (max (last_rct_t (eng c)) (R - 1) + 1 - i))")
  show "wf (measure (\<lambda>(E, T, R, now, i, c). nat (max (last_rct_t (eng c)) (R - 1) + 1 - i)))"
    by simp
next
  fix E :: "(('d::len word, 't::len word) tcall, 'w) env" and T R :: int and now :: ulong and i :: int
    and c :: "(('d word, 't word) TinyEvents, 'w) conf"
  assume "i \<le> last_rct_t (eng c)"
  then show "((E, T, R, now, i + 1, run_pend_body_t E T R now i c), (E, T, R, now, i, c))
      \<in> measure (\<lambda>(E, T, R, now, i, c). nat (max (last_rct_t (eng c)) (R - 1) + 1 - i))"
    using run_pend_body_t_last [of E T R now i c] by simp
qed

function run_trig_t ::
  "(('d::len word, 't::len word) tcall, 'w) env \<Rightarrow> int \<Rightarrow> int \<Rightarrow> ulong \<Rightarrow> int
     \<Rightarrow> (('d word, 't word) TinyEvents, 'w) conf \<Rightarrow> (('d word, 't word) TinyEvents, 'w) conf" where
  "run_trig_t E T_MAX R_MAX now i c =
     (if i \<le> last_rct_t (eng c)
      then run_trig_t E T_MAX R_MAX now (i + 1) (run_trig_body_t E T_MAX R_MAX now i c)
      else c)"
  by pat_completeness auto
termination
proof (relation
    "measure (\<lambda>(E, T, R, now, i, c). nat (max (last_rct_t (eng c)) (R - 1) + 1 - i))")
  show "wf (measure (\<lambda>(E, T, R, now, i, c). nat (max (last_rct_t (eng c)) (R - 1) + 1 - i)))"
    by simp
next
  fix E :: "(('d::len word, 't::len word) tcall, 'w) env" and T R :: int and now :: ulong and i :: int
    and c :: "(('d word, 't word) TinyEvents, 'w) conf"
  assume "i \<le> last_rct_t (eng c)"
  then show "((E, T, R, now, i + 1, run_trig_body_t E T R now i c), (E, T, R, now, i, c))
      \<in> measure (\<lambda>(E, T, R, now, i, c). nat (max (last_rct_t (eng c)) (R - 1) + 1 - i))"
    using run_trig_body_t_last [of E T R now i c] by simp
qed

declare run_schd_t.simps [simp del] run_pend_t.simps [simp del] run_trig_t.simps [simp del]

definition run_t ::
  "(('d::len word, 't::len word) tcall, 'w) env \<Rightarrow> int \<Rightarrow> int
     \<Rightarrow> (('d word, 't word) TinyEvents, 'w) conf \<Rightarrow> (('d word, 't word) TinyEvents, 'w) conf" where
  "run_t E T_MAX R_MAX c =
     (let now = millis E (world c);
          c = run_schd_t E T_MAX R_MAX now 0 c;
          c = run_pend_t E T_MAX R_MAX now 0 c
      in run_trig_t E T_MAX R_MAX now 0 c)"

section \<open>The class invariant is kept\<close>

lemma begin_schd_frame:
  "begin_schd now i s = s\<lparr>schd_nextCalls := schd_nextCalls (begin_schd now i s)\<rparr>
   \<and> length (schd_nextCalls (begin_schd now i s)) = length (schd_nextCalls s)"
proof (induction now i s rule: begin_schd.induct)
  case (1 now i s)
  show ?case
  proof (cases "i \<le> last_schd s")
    case True
    let ?s1 = "s\<lparr>schd_nextCalls := (schd_nextCalls s)[nat i := schd_nextCalls s ! nat i + now]\<rparr>"
    have e: "begin_schd now i s = begin_schd now (i + 1) ?s1"
      using True by (subst begin_schd.simps) simp
    from "1.IH" [OF True]
    have a: "begin_schd now (i + 1) ?s1
               = ?s1\<lparr>schd_nextCalls := schd_nextCalls (begin_schd now (i + 1) ?s1)\<rparr>"
      and b: "length (schd_nextCalls (begin_schd now (i + 1) ?s1)) = length (schd_nextCalls ?s1)"
      by blast+
    have "begin_schd now (i + 1) ?s1
               = s\<lparr>schd_nextCalls := schd_nextCalls (begin_schd now (i + 1) ?s1)\<rparr>"
      by (subst a) simp
    with b e show ?thesis by simp
  next
    case False
    then show ?thesis by (subst (1 2 3) begin_schd.simps) simp
  qed
qed

lemma begin_rct_frame:
  "begin_rct now i s = s\<lparr>rct_nextTrigs := rct_nextTrigs (begin_rct now i s)\<rparr>
   \<and> length (rct_nextTrigs (begin_rct now i s)) = length (rct_nextTrigs s)"
proof (induction now i s rule: begin_rct.induct)
  case (1 now i s)
  show ?case
  proof (cases "i \<le> last_rct s")
    case True
    let ?s1 = "s\<lparr>rct_nextTrigs := (rct_nextTrigs s)[nat i := rct_nextTrigs s ! nat i + now]\<rparr>"
    have e: "begin_rct now i s = begin_rct now (i + 1) ?s1"
      using True by (subst begin_rct.simps) simp
    from "1.IH" [OF True]
    have a: "begin_rct now (i + 1) ?s1
               = ?s1\<lparr>rct_nextTrigs := rct_nextTrigs (begin_rct now (i + 1) ?s1)\<rparr>"
      and b: "length (rct_nextTrigs (begin_rct now (i + 1) ?s1)) = length (rct_nextTrigs ?s1)"
      by blast+
    have "begin_rct now (i + 1) ?s1
               = s\<lparr>rct_nextTrigs := rct_nextTrigs (begin_rct now (i + 1) ?s1)\<rparr>"
      by (subst a) simp
    with b e show ?thesis by simp
  next
    case False
    then show ?thesis by (subst (1 2 3) begin_rct.simps) simp
  qed
qed

lemma begin_events_frame:
  "\<exists>xs ys. begin_events clk s = s\<lparr>schd_nextCalls := xs, rct_nextTrigs := ys\<rparr>
     \<and> length xs = length (schd_nextCalls s) \<and> length ys = length (rct_nextTrigs s)"
proof -
  let ?a = "begin_schd clk 0 s"
  let ?b = "begin_rct clk 0 ?a"
  have a: "?a = s\<lparr>schd_nextCalls := schd_nextCalls ?a\<rparr>"
    and la: "length (schd_nextCalls ?a) = length (schd_nextCalls s)"
    using begin_schd_frame [of clk 0 s] by blast+
  have b: "?b = ?a\<lparr>rct_nextTrigs := rct_nextTrigs ?b\<rparr>"
    and lb: "length (rct_nextTrigs ?b) = length (rct_nextTrigs ?a)"
    using begin_rct_frame [of clk 0 ?a] by blast+
  have "?b = s\<lparr>schd_nextCalls := schd_nextCalls ?a, rct_nextTrigs := rct_nextTrigs ?b\<rparr>"
    by (subst b, subst a) simp
  moreover have "length (rct_nextTrigs ?b) = length (rct_nextTrigs s)"
    using lb by (subst (asm) a) simp
  ultimately show ?thesis
    using la unfolding begin_events_def Let_def by blast
qed

lemma class_inv_addSchedule:
  "class_inv T R s \<Longrightarrow> class_inv T R (snd (addSchedule T cb iv d0 s))"
  by (simp add: addSchedule_def class_inv_def Let_def)

lemma class_inv_addReaction:
  "class_inv T R s \<Longrightarrow> class_inv T R (snd (addReaction R tr cb tout dly d0 s))"
  by (simp add: addReaction_def class_inv_def Let_def)

lemma class_inv_control:
  "class_inv T R s \<Longrightarrow> class_inv T R (pauseSchedule i s)"
  "class_inv T R s \<Longrightarrow> class_inv T R (pauseTrigger i s)"
  "class_inv T R s \<Longrightarrow> class_inv T R (resumeSchedule clk i ts ab s)"
  "class_inv T R s \<Longrightarrow> class_inv T R (resumeTrigger clk i ts ab s)"
  "class_inv T R s \<Longrightarrow> class_inv T R (stopReaction i s)"
  "class_inv T R s \<Longrightarrow> class_inv T R (cancelReaction clk i ts ab s)"
  by (simp_all add: pauseSchedule_def pauseTrigger_def resumeSchedule_def resumeTrigger_def
        stopReaction_def cancelReaction_def class_inv_def Let_def)

lemma class_inv_begin_events:
  "class_inv T R s \<Longrightarrow> class_inv T R (begin_events clk s)"
proof -
  assume a: "class_inv T R s"
  obtain xs ys where "begin_events clk s = s\<lparr>schd_nextCalls := xs, rct_nextTrigs := ys\<rparr>"
    and "length xs = length (schd_nextCalls s)" and "length ys = length (rct_nextTrigs s)"
    using begin_events_frame [of clk s] by blast
  then show ?thesis using a by (simp add: class_inv_def)
qed

lemma class_inv_api: "class_inv T R s \<Longrightarrow> class_inv T R (snd (api T R c clk s))"
  by (cases c)
     (simp_all add: class_inv_addSchedule class_inv_addReaction class_inv_control
        class_inv_begin_events)

lemma class_inv_exec: "class_inv T R s \<Longrightarrow> class_inv T R (snd (exec (api T R) p s))"
  by (rule exec_invariant [where P = "class_inv T R"]) (rule class_inv_api)

section \<open>Reasoning about the loops of run()\<close>

text \<open>
  A loop is handled through its body: a property \<open>P j c\<close> of the index and the
  configuration that every body passes on from \<open>j\<close> to \<open>j + 1\<close> holds when the loop
  is left, at an index beyond the high-water mark.
\<close>

lemma run_schd_rule:
  assumes "\<And>j c. i0 \<le> j \<Longrightarrow> j \<le> last_schd (eng c) \<Longrightarrow> P j c
                   \<Longrightarrow> P (j + 1) (run_schd_body E T R now j c)"
    and "i0 \<le> i" and "P i c"
  shows "\<exists>j\<ge>i. P j (run_schd E T R now i c) \<and> last_schd (eng (run_schd E T R now i c)) < j"
  using assms
proof (induction E T R now i c rule: run_schd.induct)
  case (1 E T R now i c)
  note step = "1.prems"(1)
  show ?case
  proof (cases "i \<le> last_schd (eng c)")
    case True
    let ?c = "run_schd_body E T R now i c"
    have "P (i + 1) ?c"
      using "1.prems"(2,3) True by (intro step)
    then have "\<exists>j\<ge>i + 1. P j (run_schd E T R now (i + 1) ?c)
                 \<and> last_schd (eng (run_schd E T R now (i + 1) ?c)) < j"
      using "1.IH" [OF True step] "1.prems"(2) by simp
    then obtain j where "i + 1 \<le> j" and "P j (run_schd E T R now (i + 1) ?c)"
      and "last_schd (eng (run_schd E T R now (i + 1) ?c)) < j" by blast
    moreover have "run_schd E T R now i c = run_schd E T R now (i + 1) ?c"
      using True by (subst run_schd.simps) simp
    ultimately show ?thesis by (intro exI [of _ j]) simp
  next
    case False
    then have "run_schd E T R now i c = c" by (subst run_schd.simps) simp
    then show ?thesis using "1.prems"(3) False by (intro exI [of _ i]) simp
  qed
qed

lemma run_pend_rule:
  assumes "\<And>j c. i0 \<le> j \<Longrightarrow> j \<le> last_rct (eng c) \<Longrightarrow> P j c
                   \<Longrightarrow> P (j + 1) (run_pend_body E T R now j c)"
    and "i0 \<le> i" and "P i c"
  shows "\<exists>j\<ge>i. P j (run_pend E T R now i c) \<and> last_rct (eng (run_pend E T R now i c)) < j"
  using assms
proof (induction E T R now i c rule: run_pend.induct)
  case (1 E T R now i c)
  note step = "1.prems"(1)
  show ?case
  proof (cases "i \<le> last_rct (eng c)")
    case True
    let ?c = "run_pend_body E T R now i c"
    have "P (i + 1) ?c"
      using "1.prems"(2,3) True by (intro step)
    then have "\<exists>j\<ge>i + 1. P j (run_pend E T R now (i + 1) ?c)
                 \<and> last_rct (eng (run_pend E T R now (i + 1) ?c)) < j"
      using "1.IH" [OF True step] "1.prems"(2) by simp
    then obtain j where "i + 1 \<le> j" and "P j (run_pend E T R now (i + 1) ?c)"
      and "last_rct (eng (run_pend E T R now (i + 1) ?c)) < j" by blast
    moreover have "run_pend E T R now i c = run_pend E T R now (i + 1) ?c"
      using True by (subst run_pend.simps) simp
    ultimately show ?thesis by (intro exI [of _ j]) simp
  next
    case False
    then have "run_pend E T R now i c = c" by (subst run_pend.simps) simp
    then show ?thesis using "1.prems"(3) False by (intro exI [of _ i]) simp
  qed
qed

lemma run_trig_rule:
  assumes "\<And>j c. i0 \<le> j \<Longrightarrow> j \<le> last_rct (eng c) \<Longrightarrow> P j c
                   \<Longrightarrow> P (j + 1) (run_trig_body E T R now j c)"
    and "i0 \<le> i" and "P i c"
  shows "\<exists>j\<ge>i. P j (run_trig E T R now i c) \<and> last_rct (eng (run_trig E T R now i c)) < j"
  using assms
proof (induction E T R now i c rule: run_trig.induct)
  case (1 E T R now i c)
  note step = "1.prems"(1)
  show ?case
  proof (cases "i \<le> last_rct (eng c)")
    case True
    let ?c = "run_trig_body E T R now i c"
    have "P (i + 1) ?c"
      using "1.prems"(2,3) True by (intro step)
    then have "\<exists>j\<ge>i + 1. P j (run_trig E T R now (i + 1) ?c)
                 \<and> last_rct (eng (run_trig E T R now (i + 1) ?c)) < j"
      using "1.IH" [OF True step] "1.prems"(2) by simp
    then obtain j where "i + 1 \<le> j" and "P j (run_trig E T R now (i + 1) ?c)"
      and "last_rct (eng (run_trig E T R now (i + 1) ?c)) < j" by blast
    moreover have "run_trig E T R now i c = run_trig E T R now (i + 1) ?c"
      using True by (subst run_trig.simps) simp
    ultimately show ?thesis by (intro exI [of _ j]) simp
  next
    case False
    then have "run_trig E T R now i c = c" by (subst run_trig.simps) simp
    then show ?thesis using "1.prems"(3) False by (intro exI [of _ i]) simp
  qed
qed

text \<open>The same rules for a property that does not mention the index.\<close>

lemma run_schd_invariant:
  assumes "\<And>j c. 0 \<le> j \<Longrightarrow> j \<le> last_schd (eng c) \<Longrightarrow> P c \<Longrightarrow> P (run_schd_body E T R now j c)"
    and "P c"
  shows "P (run_schd E T R now 0 c)"
  using run_schd_rule [where P = "\<lambda>_. P" and ?i0.0 = 0 and i = 0, OF assms(1) _ assms(2)]
  by auto

lemma run_pend_invariant:
  assumes "\<And>j c. 0 \<le> j \<Longrightarrow> j \<le> last_rct (eng c) \<Longrightarrow> P c \<Longrightarrow> P (run_pend_body E T R now j c)"
    and "P c"
  shows "P (run_pend E T R now 0 c)"
  using run_pend_rule [where P = "\<lambda>_. P" and ?i0.0 = 0 and i = 0, OF assms(1) _ assms(2)]
  by auto

lemma run_trig_invariant:
  assumes "\<And>j c. 0 \<le> j \<Longrightarrow> j \<le> last_rct (eng c) \<Longrightarrow> P c \<Longrightarrow> P (run_trig_body E T R now j c)"
    and "P c"
  shows "P (run_trig E T R now 0 c)"
  using run_trig_rule [where P = "\<lambda>_. P" and ?i0.0 = 0 and i = 0, OF assms(1) _ assms(2)]
  by auto

text \<open>A property kept by every loop body is kept by a tick.\<close>

lemma run_invariant:
  assumes "\<And>now j c. 0 \<le> j \<Longrightarrow> j \<le> last_schd (eng c) \<Longrightarrow> P c \<Longrightarrow> P (run_schd_body E T R now j c)"
    and "\<And>now j c. 0 \<le> j \<Longrightarrow> j \<le> last_rct (eng c) \<Longrightarrow> P c \<Longrightarrow> P (run_pend_body E T R now j c)"
    and "\<And>now j c. 0 \<le> j \<Longrightarrow> j \<le> last_rct (eng c) \<Longrightarrow> P c \<Longrightarrow> P (run_trig_body E T R now j c)"
    and "P c"
  shows "P (run E T R c)"
proof -
  let ?now = "millis E (world c)"
  have "P (run_schd E T R ?now 0 c)"
    using assms(1,4) by (rule run_schd_invariant [where P = P])
  then have "P (run_pend E T R ?now 0 (run_schd E T R ?now 0 c))"
    using assms(2) by (intro run_pend_invariant [where P = P])
  then have "P (run_trig E T R ?now 0 (run_pend E T R ?now 0 (run_schd E T R ?now 0 c)))"
    using assms(3) by (intro run_trig_invariant [where P = P])
  then show ?thesis by (simp add: run_def Let_def)
qed

lemma class_inv_schd_body:
  "class_inv T R (eng c) \<Longrightarrow> class_inv T R (eng (run_schd_body E T R now j c))"
proof -
  assume a: "class_inv T R (eng c)"
  have "class_inv T R (eng c\<lparr>schd_nextCalls := (schd_nextCalls (eng c))[k := v]\<rparr>)" for k v
    using a by (simp add: class_inv_def)
  then show ?thesis
    using a by (simp add: run_schd_body_def Let_def split_beta class_inv_exec)
qed

lemma class_inv_pend_body:
  "class_inv T R (eng c) \<Longrightarrow> class_inv T R (eng (run_pend_body E T R now j c))"
proof -
  assume a: "class_inv T R (eng c)"
  have "class_inv T R (eng c\<lparr>rct_areTrigged := (rct_areTrigged (eng c))[k := v]\<rparr>)" for k v
    using a by (simp add: class_inv_def)
  then show ?thesis
    using a by (simp add: run_pend_body_def Let_def split_beta class_inv_exec)
qed

lemma class_inv_trig_body:
  "class_inv T R (eng c) \<Longrightarrow> class_inv T R (eng (run_trig_body E T R now j c))"
proof -
  assume a: "class_inv T R (eng c)"
  have b: "class_inv T R (snd (exec (api T R) p (eng c)))" for p :: "(call, 'r) prog"
    using a by (rule class_inv_exec)
  have c: "class_inv T R s \<Longrightarrow> class_inv T R (s\<lparr>rct_nextTrigs := (rct_nextTrigs s)[k := v]\<rparr>)"
    for s k v by (simp add: class_inv_def)
  have f: "class_inv T R s \<Longrightarrow> class_inv T R
      (s\<lparr>rct_nextTrigs := (rct_nextTrigs s)[k := v], rct_nextCalls := (rct_nextCalls s)[k' := v'],
         rct_areTrigged := (rct_areTrigged s)[k'' := v'']\<rparr>)"
    for s k v k' v' k'' v'' by (simp add: class_inv_def)
  show ?thesis
    using a b by (auto simp: run_trig_body_def Let_def split_beta intro!: class_inv_exec c f)
qed

lemma class_inv_run:
  "class_inv T R (eng c) \<Longrightarrow> class_inv T R (eng (run E T R c))"
  by (rule run_invariant [where P = "\<lambda>c. class_inv T R (eng c)"])
     (simp_all add: class_inv_schd_body class_inv_pend_body class_inv_trig_body)

section \<open>TinyEvents: the class invariant and the loops\<close>

text \<open>The counterparts, for \<^verbatim>\<open>TinyEvents\<close>, of the lemmas above.\<close>

lemma begin_schd_frame_t:
  "begin_schd_t now i s = s\<lparr>schd_nextCalls_t := schd_nextCalls_t (begin_schd_t now i s)\<rparr>
   \<and> length (schd_nextCalls_t (begin_schd_t now i s)) = length (schd_nextCalls_t s)"
proof (induction now i s rule: begin_schd_t.induct)
  case (1 now i s)
  show ?case
  proof (cases "i \<le> last_schd_t s")
    case True
    let ?s1 = "s\<lparr>schd_nextCalls_t := (schd_nextCalls_t s)[nat i := schd_nextCalls_t s ! nat i + now]\<rparr>"
    have e: "begin_schd_t now i s = begin_schd_t now (i + 1) ?s1"
      using True by (subst begin_schd_t.simps) simp
    from "1.IH" [OF True]
    have a: "begin_schd_t now (i + 1) ?s1
               = ?s1\<lparr>schd_nextCalls_t := schd_nextCalls_t (begin_schd_t now (i + 1) ?s1)\<rparr>"
      and b: "length (schd_nextCalls_t (begin_schd_t now (i + 1) ?s1)) = length (schd_nextCalls_t ?s1)"
      by blast+
    have "begin_schd_t now (i + 1) ?s1
               = s\<lparr>schd_nextCalls_t := schd_nextCalls_t (begin_schd_t now (i + 1) ?s1)\<rparr>"
      by (subst a) simp
    with b e show ?thesis by simp
  next
    case False
    then show ?thesis by (subst (1 2 3) begin_schd_t.simps) simp
  qed
qed

lemma begin_rct_frame_t:
  "begin_rct_t now i s = s\<lparr>rct_nextTrigs_t := rct_nextTrigs_t (begin_rct_t now i s)\<rparr>
   \<and> length (rct_nextTrigs_t (begin_rct_t now i s)) = length (rct_nextTrigs_t s)"
proof (induction now i s rule: begin_rct_t.induct)
  case (1 now i s)
  show ?case
  proof (cases "i \<le> last_rct_t s")
    case True
    let ?s1 = "s\<lparr>rct_nextTrigs_t := (rct_nextTrigs_t s)[nat i := rct_nextTrigs_t s ! nat i + now]\<rparr>"
    have e: "begin_rct_t now i s = begin_rct_t now (i + 1) ?s1"
      using True by (subst begin_rct_t.simps) simp
    from "1.IH" [OF True]
    have a: "begin_rct_t now (i + 1) ?s1
               = ?s1\<lparr>rct_nextTrigs_t := rct_nextTrigs_t (begin_rct_t now (i + 1) ?s1)\<rparr>"
      and b: "length (rct_nextTrigs_t (begin_rct_t now (i + 1) ?s1)) = length (rct_nextTrigs_t ?s1)"
      by blast+
    have "begin_rct_t now (i + 1) ?s1
               = s\<lparr>rct_nextTrigs_t := rct_nextTrigs_t (begin_rct_t now (i + 1) ?s1)\<rparr>"
      by (subst a) simp
    with b e show ?thesis by simp
  next
    case False
    then show ?thesis by (subst (1 2 3) begin_rct_t.simps) simp
  qed
qed

lemma begin_events_frame_t:
  "\<exists>xs ys. begin_events_t clk s = s\<lparr>schd_nextCalls_t := xs, rct_nextTrigs_t := ys\<rparr>
     \<and> length xs = length (schd_nextCalls_t s) \<and> length ys = length (rct_nextTrigs_t s)"
proof -
  let ?a = "begin_schd_t clk 0 s"
  let ?b = "begin_rct_t clk 0 ?a"
  have a: "?a = s\<lparr>schd_nextCalls_t := schd_nextCalls_t ?a\<rparr>"
    and la: "length (schd_nextCalls_t ?a) = length (schd_nextCalls_t s)"
    using begin_schd_frame_t [of clk 0 s] by blast+
  have b: "?b = ?a\<lparr>rct_nextTrigs_t := rct_nextTrigs_t ?b\<rparr>"
    and lb: "length (rct_nextTrigs_t ?b) = length (rct_nextTrigs_t ?a)"
    using begin_rct_frame_t [of clk 0 ?a] by blast+
  have "?b = s\<lparr>schd_nextCalls_t := schd_nextCalls_t ?a, rct_nextTrigs_t := rct_nextTrigs_t ?b\<rparr>"
    by (subst b, subst a) simp
  moreover have "length (rct_nextTrigs_t ?b) = length (rct_nextTrigs_t s)"
    using lb by (subst (asm) a) simp
  ultimately show ?thesis
    using la unfolding begin_events_t_def Let_def by blast
qed

lemma length_clear_trigged [simp]: "length (clear_trigged a i) = length a"
  by (simp add: clear_trigged_def)

lemma length_set_trigged [simp]: "length (set_trigged a i) = length a"
  by (simp add: set_trigged_def)

lemma class_inv_t_addSchedule:
  "class_inv_t T R s \<Longrightarrow> class_inv_t T R (snd (addSchedule_t T cb iv d0 s))"
  by (simp add: addSchedule_t_def class_inv_t_def Let_def)

lemma class_inv_t_addReaction:
  "class_inv_t T R s \<Longrightarrow> class_inv_t T R (snd (addReaction_t R tr cb tout dly d0 s))"
  by (simp add: addReaction_t_def class_inv_t_def Let_def)

lemma class_inv_t_cancelReaction:
  "class_inv_t T R s \<Longrightarrow> class_inv_t T R (cancelReaction_t clk i rd ts ab s)"
  by (simp add: cancelReaction_t_def class_inv_t_def Let_def)

lemma class_inv_t_setNextSchedule:
  "class_inv_t T R s \<Longrightarrow> class_inv_t T R (setNextSchedule_t clk i ts ab s)"
  by (simp add: setNextSchedule_t_def class_inv_t_def Let_def)

lemma class_inv_t_setNextTrigger:
  "class_inv_t T R s \<Longrightarrow> class_inv_t T R (setNextTrigger_t clk i ts ab s)"
  by (simp add: setNextTrigger_t_def class_inv_t_def Let_def)

lemma class_inv_t_begin_events:
  "class_inv_t T R s \<Longrightarrow> class_inv_t T R (begin_events_t clk s)"
proof -
  assume a: "class_inv_t T R s"
  obtain xs ys where "begin_events_t clk s = s\<lparr>schd_nextCalls_t := xs, rct_nextTrigs_t := ys\<rparr>"
    and "length xs = length (schd_nextCalls_t s)" and "length ys = length (rct_nextTrigs_t s)"
    using begin_events_frame_t [of clk s] by blast
  then show ?thesis using a by (simp add: class_inv_t_def)
qed

lemma class_inv_t_api: "class_inv_t T R s \<Longrightarrow> class_inv_t T R (snd (api_t T R c clk s))"
  by (cases c)
     (simp_all add: class_inv_t_addSchedule class_inv_t_addReaction class_inv_t_cancelReaction
        class_inv_t_setNextSchedule class_inv_t_setNextTrigger class_inv_t_begin_events)

lemma class_inv_t_exec: "class_inv_t T R s \<Longrightarrow> class_inv_t T R (snd (exec (api_t T R) p s))"
  by (rule exec_invariant [where P = "class_inv_t T R"]) (rule class_inv_t_api)

lemma run_schd_rule_t:
  assumes "\<And>j c. i0 \<le> j \<Longrightarrow> j \<le> last_schd_t (eng c) \<Longrightarrow> P j c
                   \<Longrightarrow> P (j + 1) (run_schd_body_t E T R now j c)"
    and "i0 \<le> i" and "P i c"
  shows "\<exists>j\<ge>i. P j (run_schd_t E T R now i c) \<and> last_schd_t (eng (run_schd_t E T R now i c)) < j"
  using assms
proof (induction E T R now i c rule: run_schd_t.induct)
  case (1 E T R now i c)
  note step = "1.prems"(1)
  show ?case
  proof (cases "i \<le> last_schd_t (eng c)")
    case True
    let ?c = "run_schd_body_t E T R now i c"
    have "P (i + 1) ?c"
      using "1.prems"(2,3) True by (intro step)
    then have "\<exists>j\<ge>i + 1. P j (run_schd_t E T R now (i + 1) ?c)
                 \<and> last_schd_t (eng (run_schd_t E T R now (i + 1) ?c)) < j"
      using "1.IH" [OF True step] "1.prems"(2) by simp
    then obtain j where "i + 1 \<le> j" and "P j (run_schd_t E T R now (i + 1) ?c)"
      and "last_schd_t (eng (run_schd_t E T R now (i + 1) ?c)) < j" by blast
    moreover have "run_schd_t E T R now i c = run_schd_t E T R now (i + 1) ?c"
      using True by (subst run_schd_t.simps) simp
    ultimately show ?thesis by (intro exI [of _ j]) simp
  next
    case False
    then have "run_schd_t E T R now i c = c" by (subst run_schd_t.simps) simp
    then show ?thesis using "1.prems"(3) False by (intro exI [of _ i]) simp
  qed
qed

lemma run_pend_rule_t:
  assumes "\<And>j c. i0 \<le> j \<Longrightarrow> j \<le> last_rct_t (eng c) \<Longrightarrow> P j c
                   \<Longrightarrow> P (j + 1) (run_pend_body_t E T R now j c)"
    and "i0 \<le> i" and "P i c"
  shows "\<exists>j\<ge>i. P j (run_pend_t E T R now i c) \<and> last_rct_t (eng (run_pend_t E T R now i c)) < j"
  using assms
proof (induction E T R now i c rule: run_pend_t.induct)
  case (1 E T R now i c)
  note step = "1.prems"(1)
  show ?case
  proof (cases "i \<le> last_rct_t (eng c)")
    case True
    let ?c = "run_pend_body_t E T R now i c"
    have "P (i + 1) ?c"
      using "1.prems"(2,3) True by (intro step)
    then have "\<exists>j\<ge>i + 1. P j (run_pend_t E T R now (i + 1) ?c)
                 \<and> last_rct_t (eng (run_pend_t E T R now (i + 1) ?c)) < j"
      using "1.IH" [OF True step] "1.prems"(2) by simp
    then obtain j where "i + 1 \<le> j" and "P j (run_pend_t E T R now (i + 1) ?c)"
      and "last_rct_t (eng (run_pend_t E T R now (i + 1) ?c)) < j" by blast
    moreover have "run_pend_t E T R now i c = run_pend_t E T R now (i + 1) ?c"
      using True by (subst run_pend_t.simps) simp
    ultimately show ?thesis by (intro exI [of _ j]) simp
  next
    case False
    then have "run_pend_t E T R now i c = c" by (subst run_pend_t.simps) simp
    then show ?thesis using "1.prems"(3) False by (intro exI [of _ i]) simp
  qed
qed

lemma run_trig_rule_t:
  assumes "\<And>j c. i0 \<le> j \<Longrightarrow> j \<le> last_rct_t (eng c) \<Longrightarrow> P j c
                   \<Longrightarrow> P (j + 1) (run_trig_body_t E T R now j c)"
    and "i0 \<le> i" and "P i c"
  shows "\<exists>j\<ge>i. P j (run_trig_t E T R now i c) \<and> last_rct_t (eng (run_trig_t E T R now i c)) < j"
  using assms
proof (induction E T R now i c rule: run_trig_t.induct)
  case (1 E T R now i c)
  note step = "1.prems"(1)
  show ?case
  proof (cases "i \<le> last_rct_t (eng c)")
    case True
    let ?c = "run_trig_body_t E T R now i c"
    have "P (i + 1) ?c"
      using "1.prems"(2,3) True by (intro step)
    then have "\<exists>j\<ge>i + 1. P j (run_trig_t E T R now (i + 1) ?c)
                 \<and> last_rct_t (eng (run_trig_t E T R now (i + 1) ?c)) < j"
      using "1.IH" [OF True step] "1.prems"(2) by simp
    then obtain j where "i + 1 \<le> j" and "P j (run_trig_t E T R now (i + 1) ?c)"
      and "last_rct_t (eng (run_trig_t E T R now (i + 1) ?c)) < j" by blast
    moreover have "run_trig_t E T R now i c = run_trig_t E T R now (i + 1) ?c"
      using True by (subst run_trig_t.simps) simp
    ultimately show ?thesis by (intro exI [of _ j]) simp
  next
    case False
    then have "run_trig_t E T R now i c = c" by (subst run_trig_t.simps) simp
    then show ?thesis using "1.prems"(3) False by (intro exI [of _ i]) simp
  qed
qed

text \<open>The same rules for a property that does not mention the index.\<close>

lemma run_schd_invariant_t:
  assumes "\<And>j c. 0 \<le> j \<Longrightarrow> j \<le> last_schd_t (eng c) \<Longrightarrow> P c \<Longrightarrow> P (run_schd_body_t E T R now j c)"
    and "P c"
  shows "P (run_schd_t E T R now 0 c)"
  using run_schd_rule_t [where P = "\<lambda>_. P" and ?i0.0 = 0 and i = 0, OF assms(1) _ assms(2)]
  by auto

lemma run_pend_invariant_t:
  assumes "\<And>j c. 0 \<le> j \<Longrightarrow> j \<le> last_rct_t (eng c) \<Longrightarrow> P c \<Longrightarrow> P (run_pend_body_t E T R now j c)"
    and "P c"
  shows "P (run_pend_t E T R now 0 c)"
  using run_pend_rule_t [where P = "\<lambda>_. P" and ?i0.0 = 0 and i = 0, OF assms(1) _ assms(2)]
  by auto

lemma run_trig_invariant_t:
  assumes "\<And>j c. 0 \<le> j \<Longrightarrow> j \<le> last_rct_t (eng c) \<Longrightarrow> P c \<Longrightarrow> P (run_trig_body_t E T R now j c)"
    and "P c"
  shows "P (run_trig_t E T R now 0 c)"
  using run_trig_rule_t [where P = "\<lambda>_. P" and ?i0.0 = 0 and i = 0, OF assms(1) _ assms(2)]
  by auto

text \<open>A property kept by every loop body is kept by a tick.\<close>

lemma run_invariant_t:
  assumes "\<And>now j c. 0 \<le> j \<Longrightarrow> j \<le> last_schd_t (eng c) \<Longrightarrow> P c \<Longrightarrow> P (run_schd_body_t E T R now j c)"
    and "\<And>now j c. 0 \<le> j \<Longrightarrow> j \<le> last_rct_t (eng c) \<Longrightarrow> P c \<Longrightarrow> P (run_pend_body_t E T R now j c)"
    and "\<And>now j c. 0 \<le> j \<Longrightarrow> j \<le> last_rct_t (eng c) \<Longrightarrow> P c \<Longrightarrow> P (run_trig_body_t E T R now j c)"
    and "P c"
  shows "P (run_t E T R c)"
proof -
  let ?now = "millis E (world c)"
  have "P (run_schd_t E T R ?now 0 c)"
    using assms(1,4) by (rule run_schd_invariant_t [where P = P])
  then have "P (run_pend_t E T R ?now 0 (run_schd_t E T R ?now 0 c))"
    using assms(2) by (intro run_pend_invariant_t [where P = P])
  then have "P (run_trig_t E T R ?now 0 (run_pend_t E T R ?now 0 (run_schd_t E T R ?now 0 c)))"
    using assms(3) by (intro run_trig_invariant_t [where P = P])
  then show ?thesis by (simp add: run_t_def Let_def)
qed

lemma class_inv_t_schd_body:
  "class_inv_t T R (eng c) \<Longrightarrow> class_inv_t T R (eng (run_schd_body_t E T R now j c))"
proof -
  assume a: "class_inv_t T R (eng c)"
  have "class_inv_t T R (eng c\<lparr>schd_nextCalls_t := (schd_nextCalls_t (eng c))[k := v]\<rparr>)" for k v
    using a by (simp add: class_inv_t_def)
  then show ?thesis
    using a by (simp add: run_schd_body_t_def Let_def split_beta class_inv_t_exec)
qed

lemma class_inv_t_pend_body:
  "class_inv_t T R (eng c) \<Longrightarrow> class_inv_t T R (eng (run_pend_body_t E T R now j c))"
proof -
  assume a: "class_inv_t T R (eng c)"
  have "class_inv_t T R (eng c\<lparr>rct_areTrigged_t := clear_trigged (rct_areTrigged_t (eng c)) k\<rparr>)"
    for k using a by (simp add: class_inv_t_def)
  then show ?thesis
    using a by (simp add: run_pend_body_t_def Let_def split_beta class_inv_t_exec)
qed

lemma class_inv_t_trig_body:
  "class_inv_t T R (eng c) \<Longrightarrow> class_inv_t T R (eng (run_trig_body_t E T R now j c))"
proof -
  assume a: "class_inv_t T R (eng c)"
  have b: "class_inv_t T R (snd (exec (api_t T R) p (eng c)))"
    for p :: "(('a word, 'b word) tcall, 'r) prog"
    using a by (rule class_inv_t_exec)
  have c: "class_inv_t T R s
      \<Longrightarrow> class_inv_t T R (s\<lparr>rct_nextTrigs_t := (rct_nextTrigs_t s)[k := v]\<rparr>)"
    for s :: "('a word, 'b word) TinyEvents" and k v by (simp add: class_inv_t_def)
  have f: "class_inv_t T R s \<Longrightarrow> class_inv_t T R
      (s\<lparr>rct_nextTrigs_t := (rct_nextTrigs_t s)[k := v],
         rct_nextCalls_t := (rct_nextCalls_t s)[k' := v'],
         rct_areTrigged_t := set_trigged (rct_areTrigged_t s) k''\<rparr>)"
    for s :: "('a word, 'b word) TinyEvents" and k v k' v' k''
    by (simp add: class_inv_t_def)
  show ?thesis
    using a b
    by (auto simp: run_trig_body_t_def Let_def split_beta intro!: class_inv_t_exec c f)
qed

lemma class_inv_t_run:
  "class_inv_t T R (eng c) \<Longrightarrow> class_inv_t T R (eng (run_t E T R c))"
  by (rule run_invariant_t [where P = "\<lambda>c. class_inv_t T R (eng c)"])
     (simp_all add: class_inv_t_schd_body class_inv_t_pend_body class_inv_t_trig_body)

section \<open>Pausing and resuming a schedule\<close>

text \<open>
  Claim C9. For a valid schedule id, \<^verbatim>\<open>pauseSchedule\<close> makes the entry inactive and
  changes nothing else: every other entry keeps its flag, no field but
  \<^verbatim>\<open>schd_areActive\<close> differs (so \<^verbatim>\<open>schd_nextCalls\<close> is frozen, not reset), and the
  class invariant is kept. Pausing twice gives the same object as pausing once.
\<close>

theorem pauseSchedule_post:
  assumes "class_inv T R s" and "0 \<le> i" and "i \<le> last_schd s"
  shows "schd_areActive (pauseSchedule i s) ! nat i = False
       \<and> (\<forall>j. j \<noteq> nat i \<longrightarrow> schd_areActive (pauseSchedule i s) ! j = schd_areActive s ! j)
       \<and> pauseSchedule i s = s\<lparr>schd_areActive := schd_areActive (pauseSchedule i s)\<rparr>
       \<and> schd_nextCalls (pauseSchedule i s) = schd_nextCalls s
       \<and> class_inv T R (pauseSchedule i s)
       \<and> pauseSchedule i (pauseSchedule i s) = pauseSchedule i s"
  using assms by (auto simp: pauseSchedule_def class_inv_def)

theorem pauseSchedule_post_witness:
  "schd_areActive (pauseSchedule 0 (snd (addSchedule 2 7 1000 0 (init 2 2)))) ! nat 0 = False
   \<and> pauseSchedule 0 (pauseSchedule 0 (snd (addSchedule 2 7 1000 0 (init 2 2))))
       = pauseSchedule 0 (snd (addSchedule 2 7 1000 0 (init 2 2)))"
  using pauseSchedule_post [of 2 2 "snd (addSchedule 2 7 1000 0 (init 2 2))" 0]
  by (simp add: class_inv_def addSchedule_def init_def Let_def)

text \<open>
  Claim C8. For a valid schedule id, \<^verbatim>\<open>resumeSchedule(id, R, false)\<close> called when the
  clock reads \<open>clk\<close> makes the entry active with \<^verbatim>\<open>schd_nextCalls[id]\<close> equal to
  \<open>clk + R\<close> (the sum of \<^verbatim>\<open>unsigned long\<close>, which is the sum of the numbers whenever
  that fits in 32 bits), and \<^verbatim>\<open>resumeSchedule(id, T, true)\<close> makes it active with
  \<^verbatim>\<open>schd_nextCalls[id]\<close> equal to \<open>T\<close>. No other entry changes, and no field other than
  these two arrays.
\<close>

theorem resumeSchedule_post:
  assumes "class_inv T R s" and "0 \<le> i" and "i \<le> last_schd s"
  shows "schd_areActive (resumeSchedule clk i ts ab s) ! nat i = True
       \<and> schd_nextCalls (resumeSchedule clk i ts ab s) ! nat i = (if ab then ts else clk + ts)
       \<and> (\<not> ab \<and> unat clk + unat ts < 2 ^ 32 \<longrightarrow>
            unat (schd_nextCalls (resumeSchedule clk i ts ab s) ! nat i) = unat clk + unat ts)
       \<and> (\<forall>j. j \<noteq> nat i \<longrightarrow>
            schd_areActive (resumeSchedule clk i ts ab s) ! j = schd_areActive s ! j
          \<and> schd_nextCalls (resumeSchedule clk i ts ab s) ! j = schd_nextCalls s ! j)
       \<and> resumeSchedule clk i ts ab s
            = s\<lparr>schd_areActive := schd_areActive (resumeSchedule clk i ts ab s),
                 schd_nextCalls := schd_nextCalls (resumeSchedule clk i ts ab s)\<rparr>
       \<and> class_inv T R (resumeSchedule clk i ts ab s)"
  using assms by (auto simp: resumeSchedule_def class_inv_def Let_def unat_word_ariths)

theorem resumeSchedule_post_witness:
  "schd_areActive (resumeSchedule 5000 0 250 False
       (pauseSchedule 0 (snd (addSchedule 2 7 1000 0 (init 2 2))))) ! nat 0 = True
   \<and> schd_nextCalls (resumeSchedule 5000 0 250 False
       (pauseSchedule 0 (snd (addSchedule 2 7 1000 0 (init 2 2))))) ! nat 0 = 5250
   \<and> schd_nextCalls (resumeSchedule 5000 0 250 True
       (pauseSchedule 0 (snd (addSchedule 2 7 1000 0 (init 2 2))))) ! nat 0 = 250"
  using resumeSchedule_post
      [of 2 2 "pauseSchedule 0 (snd (addSchedule 2 7 1000 0 (init 2 2)))" 0 5000 250 False]
    resumeSchedule_post
      [of 2 2 "pauseSchedule 0 (snd (addSchedule 2 7 1000 0 (init 2 2)))" 0 5000 250 True]
  by (simp add: class_inv_def pauseSchedule_def addSchedule_def init_def Let_def)

section \<open>Control operations on an id that is out of range\<close>

text \<open>
  Claim C7. Every control operation begins by comparing the id with 0 and with the
  high-water mark of its table (\<^verbatim>\<open>last_schd\<close> for the schedule operations, \<^verbatim>\<open>last_rct\<close>
  for the reaction operations) and returns at once when the id is outside that range.
  For the six operations of \<^verbatim>\<open>SimpleEvents\<close> and the three of \<^verbatim>\<open>TinyEvents\<close>: with
  such an id the object after the call is the object before it, whatever the other
  arguments and the clock; the methods are \<^verbatim>\<open>void\<close> and report nothing.
\<close>

theorem invalid_id_noop:
  assumes "i < 0 \<or> last_schd s < i" and "j < 0 \<or> last_rct s < j"
    and "i' < 0 \<or> last_schd_t t < i'" and "j' < 0 \<or> last_rct_t t < j'"
  shows "pauseSchedule i s = s \<and> resumeSchedule clk i ts ab s = s
       \<and> pauseTrigger j s = s \<and> resumeTrigger clk j ts ab s = s
       \<and> cancelReaction clk j ts ab s = s \<and> stopReaction j s = s
       \<and> setNextSchedule_t clk i' ts a' t = t \<and> setNextTrigger_t clk j' ts a' t = t
       \<and> cancelReaction_t clk j' rd ts a' t = t
       \<and> api T R (PauseSchedule i) clk s = (0, s)
       \<and> api T R (ResumeSchedule i ts ab) clk s = (0, s)
       \<and> api T R (PauseTrigger j) clk s = (0, s)
       \<and> api T R (ResumeTrigger j ts ab) clk s = (0, s)
       \<and> api T R (CancelReaction j ts ab) clk s = (0, s)
       \<and> api T R (StopReaction j) clk s = (0, s)
       \<and> api_t T R (TSetNextSchedule i' ts a') clk t = (0, t)
       \<and> api_t T R (TSetNextTrigger j' ts a') clk t = (0, t)
       \<and> api_t T R (TCancelReaction j' rd ts a') clk t = (0, t)"
  using assms
  by (simp add: pauseSchedule_def resumeSchedule_def pauseTrigger_def resumeTrigger_def
        cancelReaction_def stopReaction_def setNextSchedule_t_def setNextTrigger_t_def
        cancelReaction_t_def)

theorem invalid_id_noop_witness:
  "pauseSchedule 1 (snd (addSchedule 2 7 1000 0 (init 2 2))) = snd (addSchedule 2 7 1000 0 (init 2 2))
   \<and> stopReaction 0 (snd (addSchedule 2 7 1000 0 (init 2 2))) = snd (addSchedule 2 7 1000 0 (init 2 2))
   \<and> setNextSchedule_t 50 (- 1) 10 0 (init_t 2 2 :: (32 word, 16 word) TinyEvents) = init_t 2 2
   \<and> cancelReaction_t 50 3 1 10 0 (init_t 2 2 :: (32 word, 16 word) TinyEvents) = init_t 2 2"
  using invalid_id_noop [of 1 "snd (addSchedule 2 7 1000 0 (init 2 2))" 0 "- 1"
      "init_t 2 2 :: (32 word, 16 word) TinyEvents" 3 50 10 False 0 1 2 2]
  by (simp add: addSchedule_def init_def init_t_def Let_def)

section \<open>Adding hooks up to the capacity\<close>

text \<open>A sketch's \<^verbatim>\<open>setup()\<close> that calls one \<^verbatim>\<open>add\<close> method for each element of a list
  of arguments, collecting the returned ids in call order.\<close>

fun add_all :: "('a \<Rightarrow> 's \<Rightarrow> int \<times> 's) \<Rightarrow> 'a list \<Rightarrow> 's \<Rightarrow> int list \<times> 's" where
  "add_all add [] s = ([], s)"
| "add_all add (a # as) s =
     (case add a s of (r, s') \<Rightarrow> case add_all add as s' of (rs, s'') \<Rightarrow> (r # rs, s''))"

lemma add_all_ids:
  assumes step: "\<And>a s. fst (add a s) = (if lst s + 1 < M then lst s + 1 else - 1)"
    and lst: "\<And>a s. lst (snd (add a s)) = (if lst s + 1 < M then lst s + 1 else lst s)"
  shows "fst (add_all add as s)
           = map (\<lambda>k. if lst s + 1 + int k < M then lst s + 1 + int k else - 1) [0..<length as]"
proof (induction as arbitrary: s)
  case Nil
  show ?case by simp
next
  case (Cons a as)
  obtain r s' where a: "add a s = (r, s')" by (cases "add a s")
  have r: "r = (if lst s + 1 < M then lst s + 1 else - 1)" using step [of a s] a by simp
  have l: "lst s' = (if lst s + 1 < M then lst s + 1 else lst s)" using lst [of a s] a by simp
  have "fst (add_all add (a # as) s) = r # fst (add_all add as s')"
    using a by (simp add: split_beta)
  also have "fst (add_all add as s')
      = map (\<lambda>k. if lst s' + 1 + int k < M then lst s' + 1 + int k else - 1) [0..<length as]"
    by (rule Cons.IH)
  also have "r # \<dots>
      = map (\<lambda>k. if lst s + 1 + int k < M then lst s + 1 + int k else - 1) [0..<length (a # as)]"
  proof (cases "lst s + 1 < M")
    case True
    then show ?thesis
      using r l by (simp add: upt_conv_Cons map_Suc_upt [symmetric] add.assoc del: upt_Suc)
  next
    case False
    then show ?thesis
      using r l by (auto simp: upt_conv_Cons map_Suc_upt [symmetric] simp del: upt_Suc)
  qed
  finally show ?case .
qed

lemma addSchedule_full:
  "T \<le> last_schd s + 1 \<Longrightarrow> addSchedule T cb iv d0 s = (- 1, s)"
  by (simp add: addSchedule_def)

lemma addSchedule_room:
  assumes "class_inv T R s" and "last_schd s + 1 < T"
  shows "fst (addSchedule T cb iv d0 s) = last_schd s + 1"
    and "last_schd (snd (addSchedule T cb iv d0 s)) = last_schd s + 1"
    and "schd_calls (snd (addSchedule T cb iv d0 s)) ! nat (last_schd s + 1) = cb"
    and "schd_tIntrvls (snd (addSchedule T cb iv d0 s)) ! nat (last_schd s + 1) = iv"
    and "schd_nextCalls (snd (addSchedule T cb iv d0 s)) ! nat (last_schd s + 1) = d0"
    and "schd_areActive (snd (addSchedule T cb iv d0 s)) ! nat (last_schd s + 1) = True"
    and "k \<noteq> nat (last_schd s + 1) \<Longrightarrow>
           schd_calls (snd (addSchedule T cb iv d0 s)) ! k = schd_calls s ! k
         \<and> schd_tIntrvls (snd (addSchedule T cb iv d0 s)) ! k = schd_tIntrvls s ! k
         \<and> schd_nextCalls (snd (addSchedule T cb iv d0 s)) ! k = schd_nextCalls s ! k
         \<and> schd_areActive (snd (addSchedule T cb iv d0 s)) ! k = schd_areActive s ! k"
    and "snd (addSchedule T cb iv d0 s)
           = s\<lparr>last_schd := last_schd s + 1,
               schd_calls := schd_calls (snd (addSchedule T cb iv d0 s)),
               schd_tIntrvls := schd_tIntrvls (snd (addSchedule T cb iv d0 s)),
               schd_areActive := schd_areActive (snd (addSchedule T cb iv d0 s)),
               schd_nextCalls := schd_nextCalls (snd (addSchedule T cb iv d0 s))\<rparr>"
  using assms by (simp_all add: addSchedule_def class_inv_def Let_def)

lemma addReaction_full:
  "R \<le> last_rct s + 1 \<Longrightarrow> addReaction R tr cb tout dly d0 s = (- 1, s)"
  by (simp add: addReaction_def)

lemma addReaction_room:
  assumes "class_inv T R s" and "last_rct s + 1 < R"
  shows "fst (addReaction R tr cb tout dly d0 s) = last_rct s + 1"
    and "last_rct (snd (addReaction R tr cb tout dly d0 s)) = last_rct s + 1"
    and "rct_trigs (snd (addReaction R tr cb tout dly d0 s)) ! nat (last_rct s + 1) = tr"
    and "rct_calls (snd (addReaction R tr cb tout dly d0 s)) ! nat (last_rct s + 1) = cb"
    and "rct_tTimeouts (snd (addReaction R tr cb tout dly d0 s)) ! nat (last_rct s + 1) = tout"
    and "rct_tDelays (snd (addReaction R tr cb tout dly d0 s)) ! nat (last_rct s + 1) = dly"
    and "rct_nextTrigs (snd (addReaction R tr cb tout dly d0 s)) ! nat (last_rct s + 1) = d0"
    and "rct_areActive (snd (addReaction R tr cb tout dly d0 s)) ! nat (last_rct s + 1) = True"
    and "k \<noteq> nat (last_rct s + 1) \<Longrightarrow>
           rct_trigs (snd (addReaction R tr cb tout dly d0 s)) ! k = rct_trigs s ! k
         \<and> rct_calls (snd (addReaction R tr cb tout dly d0 s)) ! k = rct_calls s ! k
         \<and> rct_tTimeouts (snd (addReaction R tr cb tout dly d0 s)) ! k = rct_tTimeouts s ! k
         \<and> rct_tDelays (snd (addReaction R tr cb tout dly d0 s)) ! k = rct_tDelays s ! k
         \<and> rct_nextTrigs (snd (addReaction R tr cb tout dly d0 s)) ! k = rct_nextTrigs s ! k
         \<and> rct_areActive (snd (addReaction R tr cb tout dly d0 s)) ! k = rct_areActive s ! k"
    and "snd (addReaction R tr cb tout dly d0 s)
           = s\<lparr>last_rct := last_rct s + 1,
               rct_calls := rct_calls (snd (addReaction R tr cb tout dly d0 s)),
               rct_trigs := rct_trigs (snd (addReaction R tr cb tout dly d0 s)),
               rct_tTimeouts := rct_tTimeouts (snd (addReaction R tr cb tout dly d0 s)),
               rct_tDelays := rct_tDelays (snd (addReaction R tr cb tout dly d0 s)),
               rct_areActive := rct_areActive (snd (addReaction R tr cb tout dly d0 s)),
               rct_nextTrigs := rct_nextTrigs (snd (addReaction R tr cb tout dly d0 s))\<rparr>"
  using assms by (simp_all add: addReaction_def class_inv_def Let_def)

lemma addSchedule_t_full:
  "T \<le> last_schd_t s + 1 \<Longrightarrow> addSchedule_t T cb iv d0 s = (- 1, s)"
  by (simp add: addSchedule_t_def)

lemma addSchedule_t_room:
  assumes "class_inv_t T R s" and "last_schd_t s + 1 < T"
  shows "fst (addSchedule_t T cb iv d0 s) = last_schd_t s + 1"
    and "last_schd_t (snd (addSchedule_t T cb iv d0 s)) = last_schd_t s + 1"
    and "schd_calls_t (snd (addSchedule_t T cb iv d0 s)) ! nat (last_schd_t s + 1) = cb"
    and "schd_tIntrvls_t (snd (addSchedule_t T cb iv d0 s)) ! nat (last_schd_t s + 1) = iv"
    and "schd_nextCalls_t (snd (addSchedule_t T cb iv d0 s)) ! nat (last_schd_t s + 1) = d0"
    and "k \<noteq> nat (last_schd_t s + 1) \<Longrightarrow>
           schd_calls_t (snd (addSchedule_t T cb iv d0 s)) ! k = schd_calls_t s ! k
         \<and> schd_tIntrvls_t (snd (addSchedule_t T cb iv d0 s)) ! k = schd_tIntrvls_t s ! k
         \<and> schd_nextCalls_t (snd (addSchedule_t T cb iv d0 s)) ! k = schd_nextCalls_t s ! k"
    and "snd (addSchedule_t T cb iv d0 s)
           = s\<lparr>last_schd_t := last_schd_t s + 1,
               schd_calls_t := schd_calls_t (snd (addSchedule_t T cb iv d0 s)),
               schd_tIntrvls_t := schd_tIntrvls_t (snd (addSchedule_t T cb iv d0 s)),
               schd_nextCalls_t := schd_nextCalls_t (snd (addSchedule_t T cb iv d0 s))\<rparr>"
  using assms by (simp_all add: addSchedule_t_def class_inv_t_def Let_def)

lemma addReaction_t_full:
  "R \<le> last_rct_t s + 1 \<Longrightarrow> addReaction_t R tr cb tout dly d0 s = (- 1, s)"
  by (simp add: addReaction_t_def)

lemma addReaction_t_room:
  assumes "class_inv_t T R s" and "last_rct_t s + 1 < R"
  shows "fst (addReaction_t R tr cb tout dly d0 s) = last_rct_t s + 1"
    and "last_rct_t (snd (addReaction_t R tr cb tout dly d0 s)) = last_rct_t s + 1"
    and "rct_trigs_t (snd (addReaction_t R tr cb tout dly d0 s)) ! nat (last_rct_t s + 1) = tr"
    and "rct_calls_t (snd (addReaction_t R tr cb tout dly d0 s)) ! nat (last_rct_t s + 1) = cb"
    and "rct_tTimeouts_t (snd (addReaction_t R tr cb tout dly d0 s)) ! nat (last_rct_t s + 1) = tout"
    and "rct_tDelays_t (snd (addReaction_t R tr cb tout dly d0 s)) ! nat (last_rct_t s + 1) = dly"
    and "rct_nextTrigs_t (snd (addReaction_t R tr cb tout dly d0 s)) ! nat (last_rct_t s + 1) = d0"
    and "k \<noteq> nat (last_rct_t s + 1) \<Longrightarrow>
           rct_trigs_t (snd (addReaction_t R tr cb tout dly d0 s)) ! k = rct_trigs_t s ! k
         \<and> rct_calls_t (snd (addReaction_t R tr cb tout dly d0 s)) ! k = rct_calls_t s ! k
         \<and> rct_tTimeouts_t (snd (addReaction_t R tr cb tout dly d0 s)) ! k = rct_tTimeouts_t s ! k
         \<and> rct_tDelays_t (snd (addReaction_t R tr cb tout dly d0 s)) ! k = rct_tDelays_t s ! k
         \<and> rct_nextTrigs_t (snd (addReaction_t R tr cb tout dly d0 s)) ! k = rct_nextTrigs_t s ! k"
    and "snd (addReaction_t R tr cb tout dly d0 s)
           = s\<lparr>last_rct_t := last_rct_t s + 1,
               rct_calls_t := rct_calls_t (snd (addReaction_t R tr cb tout dly d0 s)),
               rct_trigs_t := rct_trigs_t (snd (addReaction_t R tr cb tout dly d0 s)),
               rct_tTimeouts_t := rct_tTimeouts_t (snd (addReaction_t R tr cb tout dly d0 s)),
               rct_tDelays_t := rct_tDelays_t (snd (addReaction_t R tr cb tout dly d0 s)),
               rct_nextTrigs_t := rct_nextTrigs_t (snd (addReaction_t R tr cb tout dly d0 s))\<rparr>"
  using assms by (simp_all add: addReaction_t_def class_inv_t_def Let_def)

lemma addSchedule_ids:
  "fst (add_all (\<lambda>(cb, iv, d0). addSchedule T cb iv d0) as (init T R))
     = map (\<lambda>k. if int k < T then int k else - 1) [0..<length as]"
proof -
  have "fst (add_all (\<lambda>(cb, iv, d0). addSchedule T cb iv d0) as (init T R))
     = map (\<lambda>k. if last_schd (init T R) + 1 + int k < T then last_schd (init T R) + 1 + int k
                   else - 1) [0..<length as]"
    by (rule add_all_ids [where lst = last_schd])
       (auto simp: addSchedule_def Let_def split_beta)
  then show ?thesis by (simp add: init_def)
qed

lemma addReaction_ids:
  "fst (add_all (\<lambda>(tr, cb, tout, dly, d0). addReaction R tr cb tout dly d0) as (init T R))
     = map (\<lambda>k. if int k < R then int k else - 1) [0..<length as]"
proof -
  have "fst (add_all (\<lambda>(tr, cb, tout, dly, d0). addReaction R tr cb tout dly d0) as (init T R))
     = map (\<lambda>k. if last_rct (init T R) + 1 + int k < R then last_rct (init T R) + 1 + int k
                   else - 1) [0..<length as]"
    by (rule add_all_ids [where lst = last_rct])
       (auto simp: addReaction_def Let_def split_beta)
  then show ?thesis by (simp add: init_def)
qed

lemma addSchedule_t_ids:
  "fst (add_all (\<lambda>(cb, iv, d0). addSchedule_t T cb iv d0) as
          (init_t T R :: ('d::len word, 't::len word) TinyEvents))
     = map (\<lambda>k. if int k < T then int k else - 1) [0..<length as]"
proof -
  let ?s = "init_t T R :: ('d word, 't word) TinyEvents"
  have "fst (add_all (\<lambda>(cb, iv, d0). addSchedule_t T cb iv d0) as ?s)
     = map (\<lambda>k. if last_schd_t ?s + 1 + int k < T then last_schd_t ?s + 1 + int k
                   else - 1) [0..<length as]"
    by (rule add_all_ids [where lst = last_schd_t])
       (auto simp: addSchedule_t_def Let_def split_beta)
  then show ?thesis by (simp add: init_t_def)
qed

lemma addReaction_t_ids:
  "fst (add_all (\<lambda>(tr, cb, tout, dly, d0). addReaction_t R tr cb tout dly d0) as
          (init_t T R :: ('d::len word, 't::len word) TinyEvents))
     = map (\<lambda>k. if int k < R then int k else - 1) [0..<length as]"
proof -
  let ?s = "init_t T R :: ('d word, 't word) TinyEvents"
  have "fst (add_all (\<lambda>(tr, cb, tout, dly, d0). addReaction_t R tr cb tout dly d0) as ?s)
     = map (\<lambda>k. if last_rct_t ?s + 1 + int k < R then last_rct_t ?s + 1 + int k
                   else - 1) [0..<length as]"
    by (rule add_all_ids [where lst = last_rct_t])
       (auto simp: addReaction_t_def Let_def split_beta)
  then show ?thesis by (simp add: init_t_def)
qed

text \<open>
  Claim C6. In a well-formed object of either class, \<^verbatim>\<open>addSchedule\<close> and
  \<^verbatim>\<open>addReaction\<close> with room left return the next id (the high-water mark plus one),
  make it the new high-water mark and leave every entry up to the old mark as it was;
  with the table full they return \<open>-1\<close> and the object is the one before the call.
  Starting from a fresh object, a sequence of calls therefore returns 0, 1, 2, ... in
  call order until the capacity is reached, and \<open>-1\<close> from then on.
\<close>

theorem add_capacity:
  assumes "class_inv T R s" and "class_inv_t T R t"
  shows "(last_schd s + 1 < T \<longrightarrow>
            fst (addSchedule T cb iv d0 s) = last_schd s + 1
          \<and> last_schd (snd (addSchedule T cb iv d0 s)) = last_schd s + 1
          \<and> (\<forall>k. int k \<le> last_schd s \<longrightarrow>
                schd_calls (snd (addSchedule T cb iv d0 s)) ! k = schd_calls s ! k
              \<and> schd_tIntrvls (snd (addSchedule T cb iv d0 s)) ! k = schd_tIntrvls s ! k
              \<and> schd_nextCalls (snd (addSchedule T cb iv d0 s)) ! k = schd_nextCalls s ! k
              \<and> schd_areActive (snd (addSchedule T cb iv d0 s)) ! k = schd_areActive s ! k))
       \<and> (T \<le> last_schd s + 1 \<longrightarrow> addSchedule T cb iv d0 s = (- 1, s))
       \<and> (last_rct s + 1 < R \<longrightarrow>
            fst (addReaction R tr cb tout dly d0 s) = last_rct s + 1
          \<and> last_rct (snd (addReaction R tr cb tout dly d0 s)) = last_rct s + 1
          \<and> (\<forall>k. int k \<le> last_rct s \<longrightarrow>
                rct_trigs (snd (addReaction R tr cb tout dly d0 s)) ! k = rct_trigs s ! k
              \<and> rct_calls (snd (addReaction R tr cb tout dly d0 s)) ! k = rct_calls s ! k
              \<and> rct_tTimeouts (snd (addReaction R tr cb tout dly d0 s)) ! k = rct_tTimeouts s ! k
              \<and> rct_tDelays (snd (addReaction R tr cb tout dly d0 s)) ! k = rct_tDelays s ! k
              \<and> rct_nextTrigs (snd (addReaction R tr cb tout dly d0 s)) ! k = rct_nextTrigs s ! k
              \<and> rct_areActive (snd (addReaction R tr cb tout dly d0 s)) ! k = rct_areActive s ! k))
       \<and> (R \<le> last_rct s + 1 \<longrightarrow> addReaction R tr cb tout dly d0 s = (- 1, s))
       \<and> (last_schd_t t + 1 < T \<longrightarrow>
            fst (addSchedule_t T cb iv' d0 t) = last_schd_t t + 1
          \<and> last_schd_t (snd (addSchedule_t T cb iv' d0 t)) = last_schd_t t + 1
          \<and> (\<forall>k. int k \<le> last_schd_t t \<longrightarrow>
                schd_calls_t (snd (addSchedule_t T cb iv' d0 t)) ! k = schd_calls_t t ! k
              \<and> schd_tIntrvls_t (snd (addSchedule_t T cb iv' d0 t)) ! k = schd_tIntrvls_t t ! k
              \<and> schd_nextCalls_t (snd (addSchedule_t T cb iv' d0 t)) ! k = schd_nextCalls_t t ! k))
       \<and> (T \<le> last_schd_t t + 1 \<longrightarrow> addSchedule_t T cb iv' d0 t = (- 1, t))
       \<and> (last_rct_t t + 1 < R \<longrightarrow>
            fst (addReaction_t R tr cb tout' dly' d0 t) = last_rct_t t + 1
          \<and> last_rct_t (snd (addReaction_t R tr cb tout' dly' d0 t)) = last_rct_t t + 1
          \<and> (\<forall>k. int k \<le> last_rct_t t \<longrightarrow>
                rct_trigs_t (snd (addReaction_t R tr cb tout' dly' d0 t)) ! k = rct_trigs_t t ! k
              \<and> rct_calls_t (snd (addReaction_t R tr cb tout' dly' d0 t)) ! k = rct_calls_t t ! k
              \<and> rct_tTimeouts_t (snd (addReaction_t R tr cb tout' dly' d0 t)) ! k
                   = rct_tTimeouts_t t ! k
              \<and> rct_tDelays_t (snd (addReaction_t R tr cb tout' dly' d0 t)) ! k = rct_tDelays_t t ! k
              \<and> rct_nextTrigs_t (snd (addReaction_t R tr cb tout' dly' d0 t)) ! k
                   = rct_nextTrigs_t t ! k))
       \<and> (R \<le> last_rct_t t + 1 \<longrightarrow> addReaction_t R tr cb tout' dly' d0 t = (- 1, t))
       \<and> fst (add_all (\<lambda>(cb, iv, d0). addSchedule T cb iv d0) as (init T R))
           = map (\<lambda>k. if int k < T then int k else - 1) [0..<length as]
       \<and> fst (add_all (\<lambda>(tr, cb, tout, dly, d0). addReaction R tr cb tout dly d0) bs (init T R))
           = map (\<lambda>k. if int k < R then int k else - 1) [0..<length bs]
       \<and> fst (add_all (\<lambda>(cb, iv, d0). addSchedule_t T cb iv d0) as'
                (init_t T R :: ('d::len word, 't::len word) TinyEvents))
           = map (\<lambda>k. if int k < T then int k else - 1) [0..<length as']
       \<and> fst (add_all (\<lambda>(tr, cb, tout, dly, d0). addReaction_t R tr cb tout dly d0) bs'
                (init_t T R :: ('d word, 't word) TinyEvents))
           = map (\<lambda>k. if int k < R then int k else - 1) [0..<length bs']"
proof -
  have s1: "int k \<le> last_schd s \<Longrightarrow> k \<noteq> nat (last_schd s + 1)" for k by linarith
  have s2: "int k \<le> last_rct s \<Longrightarrow> k \<noteq> nat (last_rct s + 1)" for k by linarith
  have t1: "int k \<le> last_schd_t t \<Longrightarrow> k \<noteq> nat (last_schd_t t + 1)" for k by linarith
  have t2: "int k \<le> last_rct_t t \<Longrightarrow> k \<noteq> nat (last_rct_t t + 1)" for k by linarith
  have a: "last_schd s + 1 < T \<longrightarrow>
            fst (addSchedule T cb iv d0 s) = last_schd s + 1
          \<and> last_schd (snd (addSchedule T cb iv d0 s)) = last_schd s + 1
          \<and> (\<forall>k. int k \<le> last_schd s \<longrightarrow>
                schd_calls (snd (addSchedule T cb iv d0 s)) ! k = schd_calls s ! k
              \<and> schd_tIntrvls (snd (addSchedule T cb iv d0 s)) ! k = schd_tIntrvls s ! k
              \<and> schd_nextCalls (snd (addSchedule T cb iv d0 s)) ! k = schd_nextCalls s ! k
              \<and> schd_areActive (snd (addSchedule T cb iv d0 s)) ! k = schd_areActive s ! k)"
    using addSchedule_room(1,2) [OF assms(1)] addSchedule_room(7) [OF assms(1) _ s1]
    by blast
  have b: "last_rct s + 1 < R \<longrightarrow>
            fst (addReaction R tr cb tout dly d0 s) = last_rct s + 1
          \<and> last_rct (snd (addReaction R tr cb tout dly d0 s)) = last_rct s + 1
          \<and> (\<forall>k. int k \<le> last_rct s \<longrightarrow>
                rct_trigs (snd (addReaction R tr cb tout dly d0 s)) ! k = rct_trigs s ! k
              \<and> rct_calls (snd (addReaction R tr cb tout dly d0 s)) ! k = rct_calls s ! k
              \<and> rct_tTimeouts (snd (addReaction R tr cb tout dly d0 s)) ! k = rct_tTimeouts s ! k
              \<and> rct_tDelays (snd (addReaction R tr cb tout dly d0 s)) ! k = rct_tDelays s ! k
              \<and> rct_nextTrigs (snd (addReaction R tr cb tout dly d0 s)) ! k = rct_nextTrigs s ! k
              \<and> rct_areActive (snd (addReaction R tr cb tout dly d0 s)) ! k = rct_areActive s ! k)"
    using addReaction_room(1,2) [OF assms(1)] addReaction_room(9) [OF assms(1) _ s2]
    by blast
  have c: "last_schd_t t + 1 < T \<longrightarrow>
            fst (addSchedule_t T cb iv' d0 t) = last_schd_t t + 1
          \<and> last_schd_t (snd (addSchedule_t T cb iv' d0 t)) = last_schd_t t + 1
          \<and> (\<forall>k. int k \<le> last_schd_t t \<longrightarrow>
                schd_calls_t (snd (addSchedule_t T cb iv' d0 t)) ! k = schd_calls_t t ! k
              \<and> schd_tIntrvls_t (snd (addSchedule_t T cb iv' d0 t)) ! k = schd_tIntrvls_t t ! k
              \<and> schd_nextCalls_t (snd (addSchedule_t T cb iv' d0 t)) ! k = schd_nextCalls_t t ! k)"
    using addSchedule_t_room(1,2) [OF assms(2)] addSchedule_t_room(6) [OF assms(2) _ t1]
    by blast
  have d: "last_rct_t t + 1 < R \<longrightarrow>
            fst (addReaction_t R tr cb tout' dly' d0 t) = last_rct_t t + 1
          \<and> last_rct_t (snd (addReaction_t R tr cb tout' dly' d0 t)) = last_rct_t t + 1
          \<and> (\<forall>k. int k \<le> last_rct_t t \<longrightarrow>
                rct_trigs_t (snd (addReaction_t R tr cb tout' dly' d0 t)) ! k = rct_trigs_t t ! k
              \<and> rct_calls_t (snd (addReaction_t R tr cb tout' dly' d0 t)) ! k = rct_calls_t t ! k
              \<and> rct_tTimeouts_t (snd (addReaction_t R tr cb tout' dly' d0 t)) ! k
                   = rct_tTimeouts_t t ! k
              \<and> rct_tDelays_t (snd (addReaction_t R tr cb tout' dly' d0 t)) ! k = rct_tDelays_t t ! k
              \<and> rct_nextTrigs_t (snd (addReaction_t R tr cb tout' dly' d0 t)) ! k
                   = rct_nextTrigs_t t ! k)"
    using addReaction_t_room(1,2) [OF assms(2)] addReaction_t_room(8) [OF assms(2) _ t2]
    by blast
  have e: "T \<le> last_schd s + 1 \<longrightarrow> addSchedule T cb iv d0 s = (- 1, s)"
    "R \<le> last_rct s + 1 \<longrightarrow> addReaction R tr cb tout dly d0 s = (- 1, s)"
    "T \<le> last_schd_t t + 1 \<longrightarrow> addSchedule_t T cb iv' d0 t = (- 1, t)"
    "R \<le> last_rct_t t + 1 \<longrightarrow> addReaction_t R tr cb tout' dly' d0 t = (- 1, t)"
    using addSchedule_full [of T s cb iv d0] addReaction_full [of R s tr cb tout dly d0]
      addSchedule_t_full [of T t cb iv' d0] addReaction_t_full [of R t tr cb tout' dly' d0]
    by blast+
  show ?thesis
    by (intro conjI a b c d e addSchedule_ids addReaction_ids addSchedule_t_ids
          addReaction_t_ids)
qed

theorem add_capacity_witness:
  "fst (addSchedule 1 7 1000 0 (init 1 1)) = 0
   \<and> addSchedule 1 8 500 0 (snd (addSchedule 1 7 1000 0 (init 1 1)))
       = (- 1, snd (addSchedule 1 7 1000 0 (init 1 1)))
   \<and> fst (addReaction_t 1 5 7 4000 2000 0 (init_t 1 1 :: (32 word, 16 word) TinyEvents)) = 0
   \<and> addReaction_t 1 5 8 250 0 0
         (snd (addReaction_t 1 5 7 4000 2000 0 (init_t 1 1 :: (32 word, 16 word) TinyEvents)))
       = (- 1, snd (addReaction_t 1 5 7 4000 2000 0 (init_t 1 1 :: (32 word, 16 word) TinyEvents)))"
proof -
  let ?s0 = "init 1 1"
  let ?t0 = "init_t 1 1 :: (32 word, 16 word) TinyEvents"
  let ?s1 = "snd (addSchedule 1 7 1000 0 ?s0)"
  let ?t1 = "snd (addReaction_t 1 5 7 4000 2000 0 ?t0)"
  have i0: "class_inv 1 1 ?s0" "class_inv_t 1 1 ?t0"
    by (simp_all add: class_inv_def class_inv_t_def init_def init_t_def)
  have i1: "class_inv 1 1 ?s1" "class_inv_t 1 1 ?t1"
    by (simp_all add: class_inv_def class_inv_t_def init_def init_t_def addSchedule_def
          addReaction_t_def Let_def)
  have l0: "last_schd ?s0 = - 1" "last_rct_t ?t0 = - 1"
    by (simp_all add: init_def init_t_def)
  have l1: "last_schd ?s1 = 0" "last_rct_t ?t1 = 0"
    by (simp_all add: init_def init_t_def addSchedule_def addReaction_t_def Let_def)
  note a = add_capacity [OF i0, where cb = 7 and iv = 1000 and ?d0.0 = 0 and tr = 5
        and tout' = 4000 and dly' = 2000 and tout = 0 and dly = 0 and iv' = 0
        and as = "[]" and bs = "[]"
        and as' = "[] :: (fnptr \<times> 32 word \<times> ulong) list"
        and bs' = "[] :: (fnptr \<times> fnptr \<times> 16 word \<times> 16 word \<times> ulong) list"]
  note b = add_capacity [OF i1, where cb = 8 and iv = 500 and ?d0.0 = 0 and tr = 5
        and tout' = 250 and dly' = 0 and tout = 0 and dly = 0 and iv' = 0
        and as = "[]" and bs = "[]"
        and as' = "[] :: (fnptr \<times> 32 word \<times> ulong) list"
        and bs' = "[] :: (fnptr \<times> fnptr \<times> 16 word \<times> 16 word \<times> ulong) list"]
  show ?thesis
    using a b unfolding l0 l1 by simp
qed

section \<open>The calls made during one tick\<close>

text \<open>The entry an event is about, and the loop of \<^verbatim>\<open>run()\<close> it comes from.\<close>

fun ev_id :: "event \<Rightarrow> int" where
  "ev_id (ScheduleRun i) = i"
| "ev_id (PendingRun i) = i"
| "ev_id (TriggerTest i b) = i"
| "ev_id (DirectRun i) = i"

fun is_sched :: "event \<Rightarrow> bool" where
  "is_sched (ScheduleRun i) = True"
| "is_sched e = False"

fun is_pend :: "event \<Rightarrow> bool" where
  "is_pend (PendingRun i) = True"
| "is_pend e = False"

fun is_trig :: "event \<Rightarrow> bool" where
  "is_trig (TriggerTest i b) = True"
| "is_trig (DirectRun i) = True"
| "is_trig e = False"

text \<open>
  The events a loop adds, from index \<open>lo\<close> up to (not including) \<open>hi\<close>: all of one
  kind \<open>K\<close>, about entries in that range, in ascending order of the entry.
\<close>

definition added :: "(event \<Rightarrow> bool) \<Rightarrow> int \<Rightarrow> int \<Rightarrow> event list \<Rightarrow> event list \<Rightarrow> bool" where
  "added K lo hi old new \<longleftrightarrow>
     (\<exists>es. new = old @ es \<and> list_all K es \<and> sorted (map ev_id es) \<and> distinct es
        \<and> list_all (\<lambda>e. lo \<le> ev_id e \<and> ev_id e < hi) es)"

lemma added_refl: "added K lo lo old old"
  by (simp add: added_def)

lemma sorted_same_id: "list_all (\<lambda>e. ev_id e = j) es \<Longrightarrow> sorted (map ev_id es)"
  by (induction es) (auto simp: list_all_iff)

lemma added_step:
  assumes "added K lo j old mid" and "list_all K es" and "list_all (\<lambda>e. ev_id e = j) es"
    and "distinct es" and "lo \<le> j"
  shows "added K lo (j + 1) old (mid @ es)"
proof -
  obtain es0 where m: "mid = old @ es0" and k: "list_all K es0" and s: "sorted (map ev_id es0)"
    and d: "distinct es0" and r: "list_all (\<lambda>e. lo \<le> ev_id e \<and> ev_id e < j) es0"
    using assms(1) unfolding added_def by blast
  have lt: "ev_id x < j" if "x \<in> set es0" for x using r that by (simp add: list_all_iff)
  have eq: "ev_id y = j" if "y \<in> set es" for y using assms(3) that by (simp add: list_all_iff)
  have "sorted (map ev_id es0 @ map ev_id es)"
    unfolding sorted_append using s sorted_same_id [OF assms(3)] lt eq by fastforce
  then have "sorted (map ev_id (es0 @ es))" by simp
  moreover have "set es0 \<inter> set es = {}" using lt eq by fastforce
  then have "distinct (es0 @ es)" using d assms(4) by simp
  moreover have "list_all (\<lambda>e. lo \<le> ev_id e \<and> ev_id e < j + 1) (es0 @ es)"
    unfolding list_all_iff using lt eq r assms(5) by (fastforce simp: list_all_iff)
  ultimately show ?thesis
    unfolding added_def using m k assms(2) by (intro exI [of _ "es0 @ es"]) simp
qed

lemma trace_schd_body:
  "trace (run_schd_body E T R now i c)
     = trace c @ (if schd_areActive (eng c) ! nat i \<and> schd_nextCalls (eng c) ! nat i < now
                  then [ScheduleRun i] else [])"
  by (simp add: run_schd_body_def Let_def split_beta)

lemma trace_pend_body:
  "trace (run_pend_body E T R now i c)
     = trace c @ (if rct_areTrigged (eng c) ! nat i \<and> rct_nextCalls (eng c) ! nat i < now
                  then [PendingRun i] else [])"
  by (simp add: run_pend_body_def Let_def split_beta)

lemma trace_trig_body:
  "\<exists>es. trace (run_trig_body E T R now i c) = trace c @ es
        \<and> es \<in> {[], [TriggerTest i False], [TriggerTest i True],
                  [TriggerTest i True, DirectRun i]}"
  by (simp add: run_trig_body_def Let_def split_beta)

lemma run_schd_added:
  "\<exists>j. added is_sched 0 j (trace c) (trace (run_schd E T R now 0 c))"
proof -
  have "\<exists>j\<ge>0. added is_sched 0 j (trace c) (trace (run_schd E T R now 0 c))
        \<and> last_schd (eng (run_schd E T R now 0 c)) < j"
  proof (rule run_schd_rule [where P = "\<lambda>j c'. added is_sched 0 j (trace c) (trace c')"
        and ?i0.0 = 0])
    fix j and c' :: "(SimpleEvents, 'a) conf"
    assume "0 \<le> j" and "added is_sched 0 j (trace c) (trace c')"
    then show "added is_sched 0 (j + 1) (trace c) (trace (run_schd_body E T R now j c'))"
      unfolding trace_schd_body by (intro added_step) simp_all
  qed (simp_all add: added_refl)
  then show ?thesis by blast
qed

lemma run_pend_added:
  "\<exists>j. added is_pend 0 j (trace c) (trace (run_pend E T R now 0 c))"
proof -
  have "\<exists>j\<ge>0. added is_pend 0 j (trace c) (trace (run_pend E T R now 0 c))
        \<and> last_rct (eng (run_pend E T R now 0 c)) < j"
  proof (rule run_pend_rule [where P = "\<lambda>j c'. added is_pend 0 j (trace c) (trace c')"
        and ?i0.0 = 0])
    fix j and c' :: "(SimpleEvents, 'a) conf"
    assume "0 \<le> j" and "added is_pend 0 j (trace c) (trace c')"
    then show "added is_pend 0 (j + 1) (trace c) (trace (run_pend_body E T R now j c'))"
      unfolding trace_pend_body by (intro added_step) simp_all
  qed (simp_all add: added_refl)
  then show ?thesis by blast
qed


lemma kinds_disjoint:
  "is_sched e \<Longrightarrow> \<not> is_pend e" "is_sched e \<Longrightarrow> \<not> is_trig e" "is_pend e \<Longrightarrow> \<not> is_trig e"
  by (cases e; simp)+



lemma trace_schd_body_t:
  "trace (run_schd_body_t E T R now i c)
     = trace c @ (if schd_nextCalls_t (eng c) ! nat i < now then [ScheduleRun i] else [])"
  by (simp add: run_schd_body_t_def Let_def split_beta)


lemma trace_trig_body_t:
  "\<exists>es. trace (run_trig_body_t E T R now i c) = trace c @ es
        \<and> es \<in> {[], [TriggerTest i False], [TriggerTest i True],
                  [TriggerTest i True, DirectRun i]}"
  by (simp add: run_trig_body_t_def Let_def split_beta)





section \<open>The packed pending flags of TinyEvents\<close>

lemma bit_and_mask1: "bit (x AND push_bit n 1) m \<longleftrightarrow> bit x m \<and> m = n" for x :: "8 word"
  by (auto simp: bit_simps dest: bit_imp_le_length)

lemma bit_and_not_mask1: "bit (x AND NOT (push_bit n 1)) m \<longleftrightarrow> bit x m \<and> m \<noteq> n"
  for x :: "8 word"
  by (auto simp: bit_simps dest: bit_imp_le_length)

lemma bit_or_mask1: "n < 8 \<Longrightarrow> bit (x OR push_bit n 1) m \<longleftrightarrow> bit x m \<or> m = n"
  for x :: "8 word"
  by (auto simp: bit_simps dest: bit_imp_le_length)

lemma and_push_bit_1: "x AND push_bit n 1 \<noteq> 0 \<longleftrightarrow> bit x n" for x :: "8 word"
proof
  assume a: "x AND push_bit n 1 \<noteq> 0"
  show "bit x n"
  proof (rule ccontr)
    assume "\<not> bit x n"
    then have "x AND push_bit n 1 = 0"
      by (intro bit_word_eqI) (auto simp add: bit_and_mask1 simp del: push_bit_of_1)
    with a show False by simp
  qed
next
  assume "bit x n"
  then have "bit (x AND push_bit n 1) n" by (simp only: bit_and_mask1)
  then show "x AND push_bit n 1 \<noteq> 0" by auto
qed

lemma trigged_bit: "trigged a i \<longleftrightarrow> bit (a ! nat (i div 8)) (nat (i mod 8))"
  unfolding trigged_def by (rule and_push_bit_1)

lemma idx_split: "0 \<le> i \<Longrightarrow> 0 \<le> j \<Longrightarrow> i div 8 = j div 8 \<Longrightarrow> i mod 8 = j mod 8 \<Longrightarrow> i = j"
  for i j :: int
  by (metis mult_div_mod_eq)

lemma idx_bit_eq:
  assumes "0 \<le> i" and "0 \<le> j" and "j div 8 = i div 8"
  shows "nat (j mod 8) = nat (i mod 8) \<longleftrightarrow> j = i"
  using idx_split [OF assms(2,1,3)] by auto

lemma idx_byte_neq:
  assumes "0 \<le> i" and "0 \<le> j" and "j div 8 \<noteq> i div 8"
  shows "nat (j div 8) \<noteq> nat (i div 8)"
  using assms by (simp add: nat_eq_iff pos_imp_zdiv_nonneg_iff)


lemma trigged_set:
  assumes "0 \<le> i" and "0 \<le> j" and "nat (i div 8) < length a"
  shows "trigged (set_trigged a i) j \<longleftrightarrow> trigged a j \<or> j = i"
proof (cases "j div 8 = i div 8")
  case True
  have lt: "nat (i mod 8) < 8" by simp
  have "trigged (set_trigged a i) j
      \<longleftrightarrow> bit (a ! nat (i div 8) OR push_bit (nat (i mod 8)) 1) (nat (j mod 8))"
    unfolding trigged_bit set_trigged_def using True assms(3) by simp
  also have "\<dots> \<longleftrightarrow> bit (a ! nat (i div 8)) (nat (j mod 8)) \<or> j = i"
    unfolding bit_or_mask1 [OF lt] idx_bit_eq [OF assms(1,2) True] ..
  finally show ?thesis unfolding trigged_bit True .
next
  case False
  have "set_trigged a i ! nat (j div 8) = a ! nat (j div 8)"
    unfolding set_trigged_def using idx_byte_neq [OF assms(1,2) False] by simp
  then show ?thesis using False unfolding trigged_bit by auto
qed


text \<open>Clearing a flag never sets one, also when the index is out of range.\<close>

lemma trigged_clear_le:
  assumes "trigged (clear_trigged a i) j"
  shows "trigged a j"
proof (cases "nat (i div 8) < length a")
  case True
  show ?thesis
  proof (cases "nat (j div 8) = nat (i div 8)")
    case same: True
    then have "clear_trigged a i ! nat (j div 8)
        = a ! nat (j div 8) AND NOT (push_bit (nat (i mod 8)) 1)"
      using True by (simp add: clear_trigged_def)
    then show ?thesis using assms unfolding trigged_bit by (simp only: bit_and_not_mask1)
  next
    case False
    then have "clear_trigged a i ! nat (j div 8) = a ! nat (j div 8)"
      by (simp add: clear_trigged_def)
    then show ?thesis using assms unfolding trigged_bit by simp
  qed
next
  case False
  then have "clear_trigged a i = a"
    unfolding clear_trigged_def by (intro list_update_beyond) simp
  then show ?thesis using assms by simp
qed

section \<open>A loop as the sequence of its passes\<close>

text \<open>
  \<open>steps body i n c\<close> is \<open>n\<close> consecutive passes of a loop body, for the indices
  \<open>i, i + 1, \<dots>, i + n - 1\<close> in this order, starting from \<open>c\<close>. Each loop of \<^verbatim>\<open>run()\<close>
  is shown below to be such a sequence, so that what a tick does can be stated pass
  by pass.
\<close>

fun steps :: "(int \<Rightarrow> 'c \<Rightarrow> 'c) \<Rightarrow> int \<Rightarrow> nat \<Rightarrow> 'c \<Rightarrow> 'c" where
  "steps body i 0 c = c"
| "steps body i (Suc n) c = steps body (i + 1) n (body i c)"

lemma steps_snoc: "steps body i (Suc n) c = body (i + int n) (steps body i n c)"
proof (induction n arbitrary: i c)
  case 0
  show ?case by simp
next
  case (Suc n)
  have "steps body i (Suc (Suc n)) c = steps body (i + 1) (Suc n) (body i c)" by simp
  also have "\<dots> = body (i + 1 + int n) (steps body (i + 1) n (body i c))" by (rule Suc.IH)
  finally show ?case by (simp add: add.assoc)
qed

lemma steps_invariant:
  assumes "\<And>j c. i \<le> j \<Longrightarrow> P c \<Longrightarrow> P (body j c)" and "P c"
  shows "P (steps body i n c)"
proof (induction n)
  case 0
  show ?case using assms(2) by simp
next
  case (Suc n)
  show ?case unfolding steps_snoc using Suc by (intro assms(1)) simp_all
qed

text \<open>
  A loop that reads its bound \<open>lst\<close> again at every pass, whose passes never lower the
  bound: as long as \<open>n\<close> passes stay within the bound at the start, the loop begins
  with these \<open>n\<close> passes.
\<close>

lemma loop_prefix:
  assumes eq: "\<And>i c. loop i c = (if i \<le> lst c then loop (i + 1) (body i c) else c)"
    and mono: "\<And>i c. lst c \<le> lst (body i c)"
  shows "i + int n \<le> lst c + 1 \<Longrightarrow> loop i c = loop (i + int n) (steps body i n c)"
proof (induction n arbitrary: i c)
  case 0
  show ?case by simp
next
  case (Suc n)
  have "i \<le> lst c" using Suc.prems by simp
  then have "loop i c = loop (i + 1) (body i c)" by (subst eq) simp
  also have "\<dots> = loop (i + 1 + int n) (steps body (i + 1) n (body i c))"
    using Suc.prems mono [of c i] by (intro Suc.IH) simp
  finally show ?case by (simp add: add.assoc)
qed

text \<open>
  If moreover no pass raises the bound beyond some \<open>M\<close>, the whole loop is a sequence
  of passes that ends exactly at the bound it then finds.
\<close>

lemma loop_whole:
  assumes eq: "\<And>i c. loop i c = (if i \<le> lst c then loop (i + 1) (body i c) else c)"
    and mono: "\<And>i c. lst c \<le> lst (body i c)"
    and bound: "\<And>i c. lst (body i c) \<le> max (lst c) M"
  shows "i \<le> lst c + 1
     \<Longrightarrow> \<exists>n. loop i c = steps body i n c \<and> i + int n = lst (steps body i n c) + 1"
proof (induction "nat (max (lst c) M + 1 - i)" arbitrary: i c rule: less_induct)
  case less
  show ?case
  proof (cases "i \<le> lst c")
    case True
    let ?c = "body i c"
    have d: "nat (max (lst ?c) M + 1 - (i + 1)) < nat (max (lst c) M + 1 - i)"
      using True bound [of i c] by simp
    have "i + 1 \<le> lst ?c + 1" using True mono [of c i] by simp
    from less(1) [OF d this] obtain n where
      n: "loop (i + 1) ?c = steps body (i + 1) n ?c"
        "i + 1 + int n = lst (steps body (i + 1) n ?c) + 1" by blast
    have "loop i c = loop (i + 1) ?c" using True by (subst eq) simp
    then show ?thesis using n by (intro exI [of _ "Suc n"]) simp
  next
    case False
    then have "loop i c = c" by (subst eq) simp
    then show ?thesis using False less(2) by (intro exI [of _ 0]) simp
  qed
qed

text \<open>What a sequence of passes adds to the trace.\<close>

lemma steps_added:
  assumes "\<And>j c. \<exists>es. tr (body j c) = tr c @ es \<and> list_all K es
              \<and> list_all (\<lambda>e. ev_id e = j) es \<and> distinct es"
  shows "added K i (i + int n) (tr c) (tr (steps body i n c))"
proof (induction n)
  case 0
  show ?case by (simp add: added_refl)
next
  case (Suc n)
  obtain es where "tr (body (i + int n) (steps body i n c)) = tr (steps body i n c) @ es"
    and "list_all K es" and "list_all (\<lambda>e. ev_id e = i + int n) es" and "distinct es"
    using assms [of "i + int n" "steps body i n c"] by blast
  then have "added K i (i + int n + 1) (tr c) (tr (steps body i n c) @ es)"
    "tr (steps body i (Suc n) c) = tr (steps body i n c) @ es"
    unfolding steps_snoc using Suc by (simp_all add: added_step)
  moreover have "i + int (Suc n) = i + int n + 1" by simp
  ultimately show ?case by metis
qed

lemma added_count_outside:
  assumes "added K lo hi old new" and "\<not> K e \<or> ev_id e < lo \<or> hi \<le> ev_id e"
  shows "count_list new e = count_list old e"
proof -
  obtain es where n: "new = old @ es" and k: "list_all K es"
    and r: "list_all (\<lambda>e. lo \<le> ev_id e \<and> ev_id e < hi) es"
    using assms(1) unfolding added_def by blast
  have "e \<notin> set es" using k r assms(2) by (auto simp: list_all_iff)
  then show ?thesis using n by (simp add: count_list_0_iff)
qed

section \<open>The structure of a tick\<close>

text \<open>
  A sketch whose callbacks do nothing but return, whose predicates always hold, and
  whose world is the clock itself. It serves as a concrete environment.
\<close>

definition idle_env :: "('c, ulong) env" where
  "idle_env = \<lparr>action = (\<lambda>f w. Ret w), check = (\<lambda>f w. Ret (True, w)), millis = (\<lambda>w. w)\<rparr>"




section \<open>What a callback cannot change\<close>

text \<open>
  No method writes the callback, predicate, interval, timeout or delay of an entry
  that already exists: the two \<^verbatim>\<open>add\<close> methods write at the new index only. So
  these stay as they were added, whatever the callbacks do.
\<close>

definition rct_static :: "SimpleEvents \<Rightarrow> int \<Rightarrow> fnptr \<times> fnptr \<times> ulong \<times> ulong" where
  "rct_static s i =
     (rct_trigs s ! nat i, rct_calls s ! nat i, rct_tTimeouts s ! nat i, rct_tDelays s ! nat i)"

definition schd_static :: "SimpleEvents \<Rightarrow> int \<Rightarrow> fnptr \<times> ulong" where
  "schd_static s i = (schd_calls s ! nat i, schd_tIntrvls s ! nat i)"

lemma begin_events_static:
  "rct_static (begin_events clk s) i = rct_static s i"
  "schd_static (begin_events clk s) i = schd_static s i"
  "last_rct (begin_events clk s) = last_rct s"
  "last_schd (begin_events clk s) = last_schd s"
proof -
  obtain xs ys where e: "begin_events clk s = s\<lparr>schd_nextCalls := xs, rct_nextTrigs := ys\<rparr>"
    using begin_events_frame [of clk s] by blast
  show "rct_static (begin_events clk s) i = rct_static s i"
    "schd_static (begin_events clk s) i = schd_static s i"
    "last_rct (begin_events clk s) = last_rct s"
    "last_schd (begin_events clk s) = last_schd s"
    unfolding e by (simp_all add: rct_static_def schd_static_def)
qed

lemma api_rct_static:
  assumes "0 \<le> i" and "i \<le> last_rct s"
  shows "i \<le> last_rct (snd (api T R c clk s)) \<and> rct_static (snd (api T R c clk s)) i = rct_static s i"
proof (cases c)
  case (AddReaction tr cb tout dly d0)
  have "nat (last_rct s + 1) \<noteq> nat i" using assms by linarith
  then show ?thesis
    using assms AddReaction by (simp add: addReaction_def rct_static_def Let_def)
next
  case Begin
  then show ?thesis using assms by (simp add: begin_events_static)
qed (use assms in \<open>simp_all add: addSchedule_def pauseSchedule_def pauseTrigger_def
      resumeSchedule_def resumeTrigger_def stopReaction_def cancelReaction_def rct_static_def
      Let_def\<close>)

lemma api_schd_static:
  assumes "0 \<le> i" and "i \<le> last_schd s"
  shows "i \<le> last_schd (snd (api T R c clk s))
       \<and> schd_static (snd (api T R c clk s)) i = schd_static s i"
proof (cases c)
  case (AddSchedule cb iv d0)
  have "nat (last_schd s + 1) \<noteq> nat i" using assms by linarith
  then show ?thesis
    using assms AddSchedule by (simp add: addSchedule_def schd_static_def Let_def)
next
  case Begin
  then show ?thesis using assms by (simp add: begin_events_static)
qed (use assms in \<open>simp_all add: addReaction_def pauseSchedule_def pauseTrigger_def
      resumeSchedule_def resumeTrigger_def stopReaction_def cancelReaction_def schd_static_def
      Let_def\<close>)

lemma exec_rct_static:
  assumes "0 \<le> i" and "i \<le> last_rct s"
  shows "i \<le> last_rct (snd (exec (api T R) p s))
       \<and> rct_static (snd (exec (api T R) p s)) i = rct_static s i"
  by (rule exec_invariant
        [where P = "\<lambda>s'. i \<le> last_rct s' \<and> rct_static s' i = rct_static s i"])
     (use assms api_rct_static in \<open>auto\<close>)

lemma exec_schd_static:
  assumes "0 \<le> i" and "i \<le> last_schd s"
  shows "i \<le> last_schd (snd (exec (api T R) p s))
       \<and> schd_static (snd (exec (api T R) p s)) i = schd_static s i"
  by (rule exec_invariant
        [where P = "\<lambda>s'. i \<le> last_schd s' \<and> schd_static s' i = schd_static s i"])
     (use assms api_schd_static in \<open>auto\<close>)

section \<open>The high-water marks never go down\<close>

lemma api_last_mono:
  "last_schd s \<le> last_schd (snd (api T R c clk s))"
  "last_rct s \<le> last_rct (snd (api T R c clk s))"
  by (cases c; simp add: method_defs begin_events_def Let_def)+

lemma exec_last_mono:
  "last_schd s \<le> last_schd (snd (exec (api T R) p s))"
  "last_rct s \<le> last_rct (snd (exec (api T R) p s))"
proof -
  show "last_schd s \<le> last_schd (snd (exec (api T R) p s))"
    by (rule exec_invariant [where P = "\<lambda>s'. last_schd s \<le> last_schd s'"])
       (use api_last_mono(1) order_trans in \<open>blast+\<close>)
  show "last_rct s \<le> last_rct (snd (exec (api T R) p s))"
    by (rule exec_invariant [where P = "\<lambda>s'. last_rct s \<le> last_rct s'"])
       (use api_last_mono(2) order_trans in \<open>blast+\<close>)
qed

lemma api_t_last_mono:
  "last_schd_t s \<le> last_schd_t (snd (api_t T R c clk s))"
  "last_rct_t s \<le> last_rct_t (snd (api_t T R c clk s))"
  by (cases c; simp add: method_t_defs begin_events_t_def Let_def)+

lemma exec_t_last_mono:
  "last_schd_t s \<le> last_schd_t (snd (exec (api_t T R) p s))"
  "last_rct_t s \<le> last_rct_t (snd (exec (api_t T R) p s))"
proof -
  show "last_schd_t s \<le> last_schd_t (snd (exec (api_t T R) p s))"
    by (rule exec_invariant [where P = "\<lambda>s'. last_schd_t s \<le> last_schd_t s'"])
       (use api_t_last_mono(1) order_trans in \<open>blast+\<close>)
  show "last_rct_t s \<le> last_rct_t (snd (exec (api_t T R) p s))"
    by (rule exec_invariant [where P = "\<lambda>s'. last_rct_t s \<le> last_rct_t s'"])
       (use api_t_last_mono(2) order_trans in \<open>blast+\<close>)
qed

text \<open>A property of the object that every method keeps and that does not depend on
  the timestamps and flags is kept by every pass of every loop.\<close>

lemma bodies_keep:
  fixes c :: "(SimpleEvents, 'w) conf"
  assumes m: "\<And>(p :: (call, 'w) prog) s. P s \<Longrightarrow> P (snd (exec (api T R) p s))"
      "\<And>(p :: (call, bool \<times> 'w) prog) s. P s \<Longrightarrow> P (snd (exec (api T R) p s))"
    and u: "\<And>s xs. P (s\<lparr>schd_nextCalls := xs\<rparr>) = P s"
      "\<And>s xs. P (s\<lparr>rct_areTrigged := xs\<rparr>) = P s"
      "\<And>s xs. P (s\<lparr>rct_nextTrigs := xs\<rparr>) = P s"
      "\<And>s xs. P (s\<lparr>rct_nextCalls := xs\<rparr>) = P s"
    and "P (eng c)"
  shows "P (eng (run_schd_body E T R now j c))"
    and "P (eng (run_pend_body E T R now j c))"
    and "P (eng (run_trig_body E T R now j c))"
proof -
  show "P (eng (run_schd_body E T R now j c))"
    using assms(7) by (simp add: run_schd_body_def Let_def split_beta m u)
  show "P (eng (run_pend_body E T R now j c))"
    using assms(7) by (simp add: run_pend_body_def Let_def split_beta m u)
  show "P (eng (run_trig_body E T R now j c))"
    using assms(7) by (simp add: run_trig_body_def Let_def split_beta m u)
qed

lemma bodies_t_keep:
  fixes c :: "(('d::len word, 't::len word) TinyEvents, 'w) conf"
  assumes m: "\<And>(p :: (('d word, 't word) tcall, 'w) prog) s.
                P s \<Longrightarrow> P (snd (exec (api_t T R) p s))"
      "\<And>(p :: (('d word, 't word) tcall, bool \<times> 'w) prog) s.
                P s \<Longrightarrow> P (snd (exec (api_t T R) p s))"
    and u: "\<And>s xs. P (s\<lparr>schd_nextCalls_t := xs\<rparr>) = P s"
      "\<And>s xs. P (s\<lparr>rct_areTrigged_t := xs\<rparr>) = P s"
      "\<And>s xs. P (s\<lparr>rct_nextTrigs_t := xs\<rparr>) = P s"
      "\<And>s xs. P (s\<lparr>rct_nextCalls_t := xs\<rparr>) = P s"
    and "P (eng c)"
  shows "P (eng (run_schd_body_t E T R now j c))"
    and "P (eng (run_pend_body_t E T R now j c))"
    and "P (eng (run_trig_body_t E T R now j c))"
proof -
  show "P (eng (run_schd_body_t E T R now j c))"
    using assms(7) by (simp add: run_schd_body_t_def Let_def split_beta m u)
  show "P (eng (run_pend_body_t E T R now j c))"
    using assms(7) by (simp add: run_pend_body_t_def Let_def split_beta m u)
  show "P (eng (run_trig_body_t E T R now j c))"
    using assms(7) by (simp add: run_trig_body_t_def Let_def split_beta m u)
qed

lemma bodies_last_mono:
  "last_schd (eng c) \<le> last_schd (eng (run_schd_body E T R now j c))"
  "last_rct (eng c) \<le> last_rct (eng (run_schd_body E T R now j c))"
  "last_schd (eng c) \<le> last_schd (eng (run_pend_body E T R now j c))"
  "last_rct (eng c) \<le> last_rct (eng (run_pend_body E T R now j c))"
  "last_schd (eng c) \<le> last_schd (eng (run_trig_body E T R now j c))"
  "last_rct (eng c) \<le> last_rct (eng (run_trig_body E T R now j c))"
proof -
  have a: "last_schd (eng c) \<le> last_schd s \<Longrightarrow>
           last_schd (eng c) \<le> last_schd (snd (exec (api T R) p s))"
    for s and p :: "(call, 'r) prog"
    using exec_last_mono(1) [of s T R p] by simp
  have b: "last_rct (eng c) \<le> last_rct s \<Longrightarrow>
           last_rct (eng c) \<le> last_rct (snd (exec (api T R) p s))"
    for s and p :: "(call, 'r) prog"
    using exec_last_mono(2) [of s T R p] by simp
  show "last_schd (eng c) \<le> last_schd (eng (run_schd_body E T R now j c))"
    "last_schd (eng c) \<le> last_schd (eng (run_pend_body E T R now j c))"
    "last_schd (eng c) \<le> last_schd (eng (run_trig_body E T R now j c))"
    by (rule bodies_keep [where P = "\<lambda>s. last_schd (eng c) \<le> last_schd s"]; simp add: a)+
  show "last_rct (eng c) \<le> last_rct (eng (run_schd_body E T R now j c))"
    "last_rct (eng c) \<le> last_rct (eng (run_pend_body E T R now j c))"
    "last_rct (eng c) \<le> last_rct (eng (run_trig_body E T R now j c))"
    by (rule bodies_keep [where P = "\<lambda>s. last_rct (eng c) \<le> last_rct s"]; simp add: b)+
qed

lemma bodies_t_last_mono:
  "last_schd_t (eng c) \<le> last_schd_t (eng (run_schd_body_t E T R now j c))"
  "last_rct_t (eng c) \<le> last_rct_t (eng (run_schd_body_t E T R now j c))"
  "last_schd_t (eng c) \<le> last_schd_t (eng (run_pend_body_t E T R now j c))"
  "last_rct_t (eng c) \<le> last_rct_t (eng (run_pend_body_t E T R now j c))"
  "last_schd_t (eng c) \<le> last_schd_t (eng (run_trig_body_t E T R now j c))"
  "last_rct_t (eng c) \<le> last_rct_t (eng (run_trig_body_t E T R now j c))"
proof -
  have a: "last_schd_t (eng c) \<le> last_schd_t s \<Longrightarrow>
           last_schd_t (eng c) \<le> last_schd_t (snd (exec (api_t T R) p s))"
    for s and p :: "(('a word, 'b word) tcall, 'r) prog"
    using exec_t_last_mono(1) [of s T R p] by simp
  have b: "last_rct_t (eng c) \<le> last_rct_t s \<Longrightarrow>
           last_rct_t (eng c) \<le> last_rct_t (snd (exec (api_t T R) p s))"
    for s and p :: "(('a word, 'b word) tcall, 'r) prog"
    using exec_t_last_mono(2) [of s T R p] by simp
  show "last_schd_t (eng c) \<le> last_schd_t (eng (run_schd_body_t E T R now j c))"
    "last_schd_t (eng c) \<le> last_schd_t (eng (run_pend_body_t E T R now j c))"
    "last_schd_t (eng c) \<le> last_schd_t (eng (run_trig_body_t E T R now j c))"
    by (rule bodies_t_keep [where P = "\<lambda>s. last_schd_t (eng c) \<le> last_schd_t s"]; simp add: a)+
  show "last_rct_t (eng c) \<le> last_rct_t (eng (run_schd_body_t E T R now j c))"
    "last_rct_t (eng c) \<le> last_rct_t (eng (run_pend_body_t E T R now j c))"
    "last_rct_t (eng c) \<le> last_rct_t (eng (run_trig_body_t E T R now j c))"
    by (rule bodies_t_keep [where P = "\<lambda>s. last_rct_t (eng c) \<le> last_rct_t s"]; simp add: b)+
qed

section \<open>The loops of run() as sequences of passes\<close>

lemma run_schd_prefix:
  "i + int n \<le> last_schd (eng c) + 1 \<Longrightarrow>
   run_schd E T R now i c = run_schd E T R now (i + int n) (steps (run_schd_body E T R now) i n c)"
  by (rule loop_prefix [where loop = "run_schd E T R now" and lst = "\<lambda>c. last_schd (eng c)"
        and body = "run_schd_body E T R now"])
     (simp_all add: run_schd.simps [symmetric] bodies_last_mono)


lemma run_pend_prefix:
  "i + int n \<le> last_rct (eng c) + 1 \<Longrightarrow>
   run_pend E T R now i c = run_pend E T R now (i + int n) (steps (run_pend_body E T R now) i n c)"
  by (rule loop_prefix [where loop = "run_pend E T R now" and lst = "\<lambda>c. last_rct (eng c)"
        and body = "run_pend_body E T R now"])
     (simp_all add: run_pend.simps [symmetric] bodies_last_mono)


lemma run_trig_prefix:
  "i + int n \<le> last_rct (eng c) + 1 \<Longrightarrow>
   run_trig E T R now i c = run_trig E T R now (i + int n) (steps (run_trig_body E T R now) i n c)"
  by (rule loop_prefix [where loop = "run_trig E T R now" and lst = "\<lambda>c. last_rct (eng c)"
        and body = "run_trig_body E T R now"])
     (simp_all add: run_trig.simps [symmetric] bodies_last_mono)


lemma run_schd_t_prefix:
  "i + int n \<le> last_schd_t (eng c) + 1 \<Longrightarrow>
   run_schd_t E T R now i c = run_schd_t E T R now (i + int n) (steps (run_schd_body_t E T R now) i n c)"
  by (rule loop_prefix [where loop = "run_schd_t E T R now" and lst = "\<lambda>c. last_schd_t (eng c)"
        and body = "run_schd_body_t E T R now"])
     (simp_all add: run_schd_t.simps [symmetric] bodies_t_last_mono)


lemma run_pend_t_prefix:
  "i + int n \<le> last_rct_t (eng c) + 1 \<Longrightarrow>
   run_pend_t E T R now i c = run_pend_t E T R now (i + int n) (steps (run_pend_body_t E T R now) i n c)"
  by (rule loop_prefix [where loop = "run_pend_t E T R now" and lst = "\<lambda>c. last_rct_t (eng c)"
        and body = "run_pend_body_t E T R now"])
     (simp_all add: run_pend_t.simps [symmetric] bodies_t_last_mono)


lemma run_trig_t_prefix:
  "i + int n \<le> last_rct_t (eng c) + 1 \<Longrightarrow>
   run_trig_t E T R now i c = run_trig_t E T R now (i + int n) (steps (run_trig_body_t E T R now) i n c)"
  by (rule loop_prefix [where loop = "run_trig_t E T R now" and lst = "\<lambda>c. last_rct_t (eng c)"
        and body = "run_trig_body_t E T R now"])
     (simp_all add: run_trig_t.simps [symmetric] bodies_t_last_mono)


text \<open>
  The pass for an entry \<open>i\<close> that exists when the loop starts: the loop is the passes
  for the entries before \<open>i\<close>, then the pass for \<open>i\<close>, then the rest of the loop; and only
  the pass for \<open>i\<close> adds events about \<open>i\<close>.
\<close>

lemma loop_at:
  assumes eq: "\<And>i c. loop i c = (if i \<le> lst c then loop (i + 1) (body i c) else c)"
    and mono: "\<And>i c. lst c \<le> lst (body i c)"
    and bound: "\<And>i c. lst (body i c) \<le> max (lst c) M"
    and ev: "\<And>j c. \<exists>es. tr (body j c) = tr c @ es \<and> list_all K es
              \<and> list_all (\<lambda>e. ev_id e = j) es \<and> distinct es"
    and i: "0 \<le> i" "i \<le> lst c"
  shows "loop 0 c = loop (i + 1) (body i (steps body 0 (nat i) c))"
    and "lst c \<le> lst (steps body 0 (nat i) c)"
    and "ev_id e = i \<Longrightarrow> count_list (tr (steps body 0 (nat i) c)) e = count_list (tr c) e"
    and "ev_id e = i \<Longrightarrow> count_list (tr (loop 0 c)) e
           = count_list (tr (body i (steps body 0 (nat i) c))) e"
proof -
  let ?ci = "steps body 0 (nat i) c"
  let ?c' = "body i ?ci"
  have s: "steps body 0 (Suc (nat i)) c = ?c'"
    using i(1) by (simp only: steps_snoc) simp
  have le: "0 + int (Suc (nat i)) \<le> lst c + 1" using i by simp
  have p: "0 + int (Suc (nat i)) = i + 1" using i(1) by simp
  from loop_prefix [of loop lst body 0 "Suc (nat i)" c, OF eq mono le]
  show a: "loop 0 c = loop (i + 1) ?c'"
    unfolding s p .
  show m: "lst c \<le> lst ?ci"
    by (rule steps_invariant [where P = "\<lambda>c'. lst c \<le> lst c'"])
       (use mono order_trans in \<open>blast+\<close>)
  have "added K 0 (0 + int (nat i)) (tr c) (tr ?ci)"
    by (rule steps_added) (rule ev)
  then show "ev_id e = i \<Longrightarrow> count_list (tr ?ci) e = count_list (tr c) e"
    using i(1) by (intro added_count_outside [where K = K and lo = 0 and hi = i]) simp_all
  have "i + 1 \<le> lst ?c' + 1" using m i(2) mono [of ?ci i] by simp
  from loop_whole [of loop lst body M "i + 1" ?c', OF eq mono bound this]
  obtain n where n: "loop (i + 1) ?c' = steps body (i + 1) n ?c'" by blast
  have "added K (i + 1) (i + 1 + int n) (tr ?c') (tr (steps body (i + 1) n ?c'))"
    by (rule steps_added) (rule ev)
  then show "ev_id e = i \<Longrightarrow> count_list (tr (loop 0 c)) e = count_list (tr ?c') e"
    unfolding a n
    by (intro added_count_outside [where K = K and lo = "i + 1" and hi = "i + 1 + int n"])
       simp_all
qed

lemma ev_schd_body:
  "\<exists>es. trace (run_schd_body E T R now j c) = trace c @ es \<and> list_all is_sched es
     \<and> list_all (\<lambda>e. ev_id e = j) es \<and> distinct es"
  unfolding trace_schd_body by simp


lemma ev_trig_body:
  "\<exists>es. trace (run_trig_body E T R now j c) = trace c @ es \<and> list_all is_trig es
     \<and> list_all (\<lambda>e. ev_id e = j) es \<and> distinct es"
  using trace_trig_body [of E T R now j c] by auto

lemmas run_schd_at =
  loop_at [where loop = "run_schd E T R now" and lst = "\<lambda>c. last_schd (eng c)"
      and body = "run_schd_body E T R now" and M = "T - 1" and tr = trace and K = is_sched,
    OF run_schd.simps bodies_last_mono(1) run_schd_body_last ev_schd_body] for E T R now


lemmas run_trig_at =
  loop_at [where loop = "run_trig E T R now" and lst = "\<lambda>c. last_rct (eng c)"
      and body = "run_trig_body E T R now" and M = "R - 1" and tr = trace and K = is_trig,
    OF run_trig.simps bodies_last_mono(6) run_trig_body_last ev_trig_body] for E T R now

text \<open>A property of the object kept by every pass is kept by any number of passes, by
  each loop and by the whole tick.\<close>

lemma tick_keeps:
  fixes c :: "(SimpleEvents, 'w) conf"
  assumes m: "\<And>(p :: (call, 'w) prog) s. P s \<Longrightarrow> P (snd (exec (api T R) p s))"
      "\<And>(p :: (call, bool \<times> 'w) prog) s. P s \<Longrightarrow> P (snd (exec (api T R) p s))"
    and u: "\<And>s xs. P (s\<lparr>schd_nextCalls := xs\<rparr>) = P s"
      "\<And>s xs. P (s\<lparr>rct_areTrigged := xs\<rparr>) = P s"
      "\<And>s xs. P (s\<lparr>rct_nextTrigs := xs\<rparr>) = P s"
      "\<And>s xs. P (s\<lparr>rct_nextCalls := xs\<rparr>) = P s"
    and c: "P (eng c)"
  shows "P (eng (steps (run_schd_body E T R now) i n c))"
    and "P (eng (steps (run_pend_body E T R now) i n c))"
    and "P (eng (steps (run_trig_body E T R now) i n c))"
    and "P (eng (run_schd E T R now 0 c))"
    and "P (eng (run_pend E T R now 0 c))"
    and "P (eng (run_trig E T R now 0 c))"
    and "P (eng (run E T R c))"
proof -
  note b = bodies_keep [where P = P and T = T and R = R and E = E, OF m u]
  show "P (eng (steps (run_schd_body E T R now) i n c))"
    by (rule steps_invariant [where P = "\<lambda>c. P (eng c)"]) (simp_all add: b c)
  show "P (eng (steps (run_pend_body E T R now) i n c))"
    by (rule steps_invariant [where P = "\<lambda>c. P (eng c)"]) (simp_all add: b c)
  show "P (eng (steps (run_trig_body E T R now) i n c))"
    by (rule steps_invariant [where P = "\<lambda>c. P (eng c)"]) (simp_all add: b c)
  show "P (eng (run_schd E T R now 0 c))"
    by (rule run_schd_invariant [where P = "\<lambda>c. P (eng c)"]) (simp_all add: b c)
  show "P (eng (run_pend E T R now 0 c))"
    by (rule run_pend_invariant [where P = "\<lambda>c. P (eng c)"]) (simp_all add: b c)
  show "P (eng (run_trig E T R now 0 c))"
    by (rule run_trig_invariant [where P = "\<lambda>c. P (eng c)"]) (simp_all add: b c)
  show "P (eng (run E T R c))"
    by (rule run_invariant [where P = "\<lambda>c. P (eng c)"]) (simp_all add: b c)
qed

lemma ev_schd_body_t:
  "\<exists>es. trace (run_schd_body_t E T R now j c) = trace c @ es \<and> list_all is_sched es
     \<and> list_all (\<lambda>e. ev_id e = j) es \<and> distinct es"
  unfolding trace_schd_body_t by simp


lemma ev_trig_body_t:
  "\<exists>es. trace (run_trig_body_t E T R now j c) = trace c @ es \<and> list_all is_trig es
     \<and> list_all (\<lambda>e. ev_id e = j) es \<and> distinct es"
  using trace_trig_body_t [of E T R now j c] by auto

lemmas run_schd_at_t =
  loop_at [where loop = "run_schd_t E T R now" and lst = "\<lambda>c. last_schd_t (eng c)"
      and body = "run_schd_body_t E T R now" and M = "T - 1" and tr = trace and K = is_sched,
    OF run_schd_t.simps bodies_t_last_mono(1) run_schd_body_t_last ev_schd_body_t] for E T R now


lemmas run_trig_at_t =
  loop_at [where loop = "run_trig_t E T R now" and lst = "\<lambda>c. last_rct_t (eng c)"
      and body = "run_trig_body_t E T R now" and M = "R - 1" and tr = trace and K = is_trig,
    OF run_trig_t.simps bodies_t_last_mono(6) run_trig_body_t_last ev_trig_body_t] for E T R now

text \<open>The same for \<^verbatim>\<open>TinyEvents\<close>.\<close>

lemma tick_keeps_t:
  fixes c :: "(('d::len word, 't::len word) TinyEvents, 'w) conf"
  assumes m: "\<And>(p :: (('d word, 't word) tcall, 'w) prog) s. P s \<Longrightarrow> P (snd (exec (api_t T R) p s))"
      "\<And>(p :: (('d word, 't word) tcall, bool \<times> 'w) prog) s. P s \<Longrightarrow> P (snd (exec (api_t T R) p s))"
    and u: "\<And>s xs. P (s\<lparr>schd_nextCalls_t := xs\<rparr>) = P s"
      "\<And>s xs. P (s\<lparr>rct_areTrigged_t := xs\<rparr>) = P s"
      "\<And>s xs. P (s\<lparr>rct_nextTrigs_t := xs\<rparr>) = P s"
      "\<And>s xs. P (s\<lparr>rct_nextCalls_t := xs\<rparr>) = P s"
    and c: "P (eng c)"
  shows "P (eng (steps (run_schd_body_t E T R now) i n c))"
    and "P (eng (steps (run_pend_body_t E T R now) i n c))"
    and "P (eng (steps (run_trig_body_t E T R now) i n c))"
    and "P (eng (run_schd_t E T R now 0 c))"
    and "P (eng (run_pend_t E T R now 0 c))"
    and "P (eng (run_trig_t E T R now 0 c))"
    and "P (eng (run_t E T R c))"
proof -
  note b = bodies_t_keep [where P = P and T = T and R = R and E = E, OF m u]
  show "P (eng (steps (run_schd_body_t E T R now) i n c))"
    by (rule steps_invariant [where P = "\<lambda>c. P (eng c)"]) (simp_all add: b c)
  show "P (eng (steps (run_pend_body_t E T R now) i n c))"
    by (rule steps_invariant [where P = "\<lambda>c. P (eng c)"]) (simp_all add: b c)
  show "P (eng (steps (run_trig_body_t E T R now) i n c))"
    by (rule steps_invariant [where P = "\<lambda>c. P (eng c)"]) (simp_all add: b c)
  show "P (eng (run_schd_t E T R now 0 c))"
    by (rule run_schd_invariant_t [where P = "\<lambda>c. P (eng c)"]) (simp_all add: b c)
  show "P (eng (run_pend_t E T R now 0 c))"
    by (rule run_pend_invariant_t [where P = "\<lambda>c. P (eng c)"]) (simp_all add: b c)
  show "P (eng (run_trig_t E T R now 0 c))"
    by (rule run_trig_invariant_t [where P = "\<lambda>c. P (eng c)"]) (simp_all add: b c)
  show "P (eng (run_t E T R c))"
    by (rule run_invariant_t [where P = "\<lambda>c. P (eng c)"]) (simp_all add: b c)
qed

text \<open>The same for \<^verbatim>\<open>TinyEvents\<close>.\<close>

definition rct_static_t ::
  "('d::len word, 't::len word) TinyEvents \<Rightarrow> int \<Rightarrow> fnptr \<times> fnptr \<times> 't word \<times> 't word" where
  "rct_static_t s i =
     (rct_trigs_t s ! nat i, rct_calls_t s ! nat i, rct_tTimeouts_t s ! nat i,
      rct_tDelays_t s ! nat i)"

definition schd_static_t :: "('d::len word, 't::len word) TinyEvents \<Rightarrow> int \<Rightarrow> fnptr \<times> 'd word" where
  "schd_static_t s i = (schd_calls_t s ! nat i, schd_tIntrvls_t s ! nat i)"

lemma begin_events_t_static:
  "rct_static_t (begin_events_t clk s) i = rct_static_t s i"
  "schd_static_t (begin_events_t clk s) i = schd_static_t s i"
  "last_rct_t (begin_events_t clk s) = last_rct_t s"
  "last_schd_t (begin_events_t clk s) = last_schd_t s"
proof -
  obtain xs ys where e: "begin_events_t clk s = s\<lparr>schd_nextCalls_t := xs, rct_nextTrigs_t := ys\<rparr>"
    using begin_events_frame_t [of clk s] by blast
  show "rct_static_t (begin_events_t clk s) i = rct_static_t s i"
    "schd_static_t (begin_events_t clk s) i = schd_static_t s i"
    "last_rct_t (begin_events_t clk s) = last_rct_t s"
    "last_schd_t (begin_events_t clk s) = last_schd_t s"
    unfolding e by (simp_all add: rct_static_t_def schd_static_t_def)
qed


lemma api_t_schd_static:
  assumes "0 \<le> i" and "i \<le> last_schd_t s"
  shows "i \<le> last_schd_t (snd (api_t T R c clk s))
       \<and> schd_static_t (snd (api_t T R c clk s)) i = schd_static_t s i"
proof (cases c)
  case (TAddSchedule cb iv d0)
  have "nat (last_schd_t s + 1) \<noteq> nat i" using assms by linarith
  then show ?thesis
    using assms TAddSchedule by (simp add: addSchedule_t_def schd_static_t_def Let_def)
next
  case TBegin
  then show ?thesis using assms by (simp add: begin_events_t_static)
qed (use assms in \<open>simp_all add: addReaction_t_def cancelReaction_t_def setNextSchedule_t_def
      setNextTrigger_t_def schd_static_t_def Let_def\<close>)


lemma exec_t_schd_static:
  assumes "0 \<le> i" and "i \<le> last_schd_t s"
  shows "i \<le> last_schd_t (snd (exec (api_t T R) p s))
       \<and> schd_static_t (snd (exec (api_t T R) p s)) i = schd_static_t s i"
proof (rule exec_invariant
        [where P = "\<lambda>s'. i \<le> last_schd_t s' \<and> schd_static_t s' i = schd_static_t s i"])
  fix c clk and sa :: "('a word, 'b word) TinyEvents"
  assume "i \<le> last_schd_t sa \<and> schd_static_t sa i = schd_static_t s i"
  then show "i \<le> last_schd_t (snd (api_t T R c clk sa))
      \<and> schd_static_t (snd (api_t T R c clk sa)) i = schd_static_t s i"
    using api_t_schd_static [OF assms(1), of sa T R c clk] by simp
qed (use assms in simp)

text \<open>An entry that exists keeps existing, with what it was added with, through every
  pass, loop and tick.\<close>

lemma rct_static_kept:
  fixes c :: "(SimpleEvents, 'w) conf"
  assumes "0 \<le> i" and "i \<le> last_rct (eng c)"
  defines "P \<equiv> \<lambda>s. i \<le> last_rct s \<and> rct_static s i = rct_static (eng c) i"
  shows "P (eng (steps (run_schd_body E T R now) j n c))"
    and "P (eng (steps (run_pend_body E T R now) j n c))"
    and "P (eng (steps (run_trig_body E T R now) j n c))"
    and "P (eng (run_schd E T R now 0 c))"
    and "P (eng (run_pend E T R now 0 c))"
    and "P (eng (run_trig E T R now 0 c))"
    and "P (eng (run E T R c))"
proof -
  have m: "P s \<Longrightarrow> P (snd (exec (api T R) p s))" for s and p :: "(call, 'r) prog"
    unfolding P_def using exec_rct_static [OF assms(1), of s T R p] by simp
  have c: "P (eng c)" unfolding P_def using assms(2) by simp
  show "P (eng (steps (run_schd_body E T R now) j n c))"
    "P (eng (steps (run_pend_body E T R now) j n c))"
    "P (eng (steps (run_trig_body E T R now) j n c))"
    "P (eng (run_schd E T R now 0 c))"
    "P (eng (run_pend E T R now 0 c))"
    "P (eng (run_trig E T R now 0 c))"
    "P (eng (run E T R c))"
    by (rule tick_keeps [where P = P, OF m m _ _ _ _ c]; simp add: P_def rct_static_def)+
qed

lemma schd_static_kept:
  fixes c :: "(SimpleEvents, 'w) conf"
  assumes "0 \<le> i" and "i \<le> last_schd (eng c)"
  defines "P \<equiv> \<lambda>s. i \<le> last_schd s \<and> schd_static s i = schd_static (eng c) i"
  shows "P (eng (steps (run_schd_body E T R now) j n c))"
    and "P (eng (steps (run_pend_body E T R now) j n c))"
    and "P (eng (steps (run_trig_body E T R now) j n c))"
    and "P (eng (run_schd E T R now 0 c))"
    and "P (eng (run_pend E T R now 0 c))"
    and "P (eng (run_trig E T R now 0 c))"
    and "P (eng (run E T R c))"
proof -
  have m: "P s \<Longrightarrow> P (snd (exec (api T R) p s))" for s and p :: "(call, 'r) prog"
    unfolding P_def using exec_schd_static [OF assms(1), of s T R p] by simp
  have c: "P (eng c)" unfolding P_def using assms(2) by simp
  show "P (eng (steps (run_schd_body E T R now) j n c))"
    "P (eng (steps (run_pend_body E T R now) j n c))"
    "P (eng (steps (run_trig_body E T R now) j n c))"
    "P (eng (run_schd E T R now 0 c))"
    "P (eng (run_pend E T R now 0 c))"
    "P (eng (run_trig E T R now 0 c))"
    "P (eng (run E T R c))"
    by (rule tick_keeps [where P = P, OF m m _ _ _ _ c]; simp add: P_def schd_static_def)+
qed

lemma class_inv_kept:
  fixes c :: "(SimpleEvents, 'w) conf"
  assumes "class_inv T R (eng c)"
  shows "class_inv T R (eng (steps (run_schd_body E T R now) j n c))"
    and "class_inv T R (eng (steps (run_pend_body E T R now) j n c))"
    and "class_inv T R (eng (steps (run_trig_body E T R now) j n c))"
    and "class_inv T R (eng (run_schd E T R now 0 c))"
    and "class_inv T R (eng (run_pend E T R now 0 c))"
    and "class_inv T R (eng (run_trig E T R now 0 c))"
proof -
  show "class_inv T R (eng (steps (run_schd_body E T R now) j n c))"
    by (rule steps_invariant [where P = "\<lambda>c. class_inv T R (eng c)"])
       (simp_all add: class_inv_schd_body assms)
  show "class_inv T R (eng (steps (run_pend_body E T R now) j n c))"
    by (rule steps_invariant [where P = "\<lambda>c. class_inv T R (eng c)"])
       (simp_all add: class_inv_pend_body assms)
  show "class_inv T R (eng (steps (run_trig_body E T R now) j n c))"
    by (rule steps_invariant [where P = "\<lambda>c. class_inv T R (eng c)"])
       (simp_all add: class_inv_trig_body assms)
  show "class_inv T R (eng (run_schd E T R now 0 c))"
    by (rule run_schd_invariant [where P = "\<lambda>c. class_inv T R (eng c)"])
       (simp_all add: class_inv_schd_body assms)
  show "class_inv T R (eng (run_pend E T R now 0 c))"
    by (rule run_pend_invariant [where P = "\<lambda>c. class_inv T R (eng c)"])
       (simp_all add: class_inv_pend_body assms)
  show "class_inv T R (eng (run_trig E T R now 0 c))"
    by (rule run_trig_invariant [where P = "\<lambda>c. class_inv T R (eng c)"])
       (simp_all add: class_inv_trig_body assms)
qed


lemma schd_static_kept_t:
  fixes c :: "(('d::len word, 't::len word) TinyEvents, 'w) conf"
  assumes "0 \<le> i" and "i \<le> last_schd_t (eng c)"
  defines "P \<equiv> \<lambda>s. i \<le> last_schd_t s \<and> schd_static_t s i = schd_static_t (eng c) i"
  shows "P (eng (steps (run_schd_body_t E T R now) j n c))"
    and "P (eng (steps (run_pend_body_t E T R now) j n c))"
    and "P (eng (steps (run_trig_body_t E T R now) j n c))"
    and "P (eng (run_schd_t E T R now 0 c))"
    and "P (eng (run_pend_t E T R now 0 c))"
    and "P (eng (run_trig_t E T R now 0 c))"
    and "P (eng (run_t E T R c))"
proof -
  have m: "P s \<Longrightarrow> P (snd (exec (api_t T R) p s))" for s and p :: "(('d word, 't word) tcall, 'r) prog"
    unfolding P_def using exec_t_schd_static [OF assms(1), of s T R p] by simp
  have c: "P (eng c)" unfolding P_def using assms(2) by simp
  show "P (eng (steps (run_schd_body_t E T R now) j n c))"
    "P (eng (steps (run_pend_body_t E T R now) j n c))"
    "P (eng (steps (run_trig_body_t E T R now) j n c))"
    "P (eng (run_schd_t E T R now 0 c))"
    "P (eng (run_pend_t E T R now 0 c))"
    "P (eng (run_trig_t E T R now 0 c))"
    "P (eng (run_t E T R c))"
    by (rule tick_keeps_t [where P = P, OF m m _ _ _ _ c]; simp add: P_def schd_static_t_def)+
qed


section \<open>The scan for new triggers\<close>

text \<open>One pass of the third loop of \<^verbatim>\<open>SimpleEvents::run()\<close>, for an existing entry.\<close>

lemma trig_body_spec:
  fixes E :: "(call, 'w) env" and c :: "(SimpleEvents, 'w) conf"
    and T R i :: int and now :: ulong
  assumes "class_inv T R (eng c)" and "0 \<le> i" and "i \<le> last_rct (eng c)"
  defines "X \<equiv> exec (api T R) (check E (rct_trigs (eng c) ! nat i) (world c)) (eng c)"
  defines "b \<equiv> fst (fst X)" and "w1 \<equiv> snd (fst X)" and "s1 \<equiv> snd X"
  defines "timeout \<equiv> rct_tTimeouts (eng c) ! nat i"
    and "delay \<equiv> rct_tDelays (eng c) ! nat i"
  defines "s2 \<equiv> s1\<lparr>rct_nextTrigs := (rct_nextTrigs s1)[nat i := now + timeout]\<rparr>"
  defines "Y \<equiv> exec (api T R) (action E (rct_calls (eng c) ! nat i) w1) s2"
  defines "c' \<equiv> run_trig_body E T R now i c"
  shows "(\<not> (rct_areActive (eng c) ! nat i \<and> rct_nextTrigs (eng c) ! nat i < now) \<longrightarrow> c' = c)
       \<and> (rct_areActive (eng c) ! nat i \<and> rct_nextTrigs (eng c) ! nat i < now \<longrightarrow>
            trace c' = trace c @ TriggerTest i b # (if b \<and> delay = 0 then [DirectRun i] else [])
          \<and> (\<not> b \<longrightarrow> world c' = w1 \<and> eng c' = s1)
          \<and> (b \<longrightarrow> rct_nextTrigs s2 ! nat i = now + timeout)
          \<and> (b \<and> delay = 0 \<longrightarrow>
                world c' = fst Y \<and> eng c' = snd Y \<and> rct_areTrigged s2 = rct_areTrigged s1)
          \<and> (b \<and> delay \<noteq> 0 \<longrightarrow>
                world c' = w1
              \<and> eng c' = s2\<lparr>rct_nextCalls := (rct_nextCalls s2)[nat i := now + delay],
                             rct_areTrigged := (rct_areTrigged s2)[nat i := True]\<rparr>
              \<and> rct_nextTrigs (eng c') ! nat i = now + timeout
              \<and> rct_nextCalls (eng c') ! nat i = now + delay
              \<and> rct_areTrigged (eng c') ! nat i))"
proof -
  have inv1: "class_inv T R s1"
    unfolding s1_def X_def using assms(1) by (rule class_inv_exec)
  have st: "i \<le> last_rct s1" "rct_static s1 i = rct_static (eng c) i"
    unfolding s1_def X_def using exec_rct_static [OF assms(2,3)] by blast+
  have to: "rct_tTimeouts s1 ! nat i = timeout" and dl: "rct_tDelays s1 ! nat i = delay"
    and cl: "rct_calls s1 ! nat i = rct_calls (eng c) ! nat i"
    using st(2) by (simp_all add: rct_static_def timeout_def delay_def)
  have len: "nat i < length (rct_nextTrigs s1)" "nat i < length (rct_nextCalls s1)"
    "nat i < length (rct_areTrigged s1)"
    using inv1 st(1) assms(2) by (simp_all add: class_inv_def)
  have s2f: "rct_calls s2 ! nat i = rct_calls (eng c) ! nat i" "rct_tDelays s2 ! nat i = delay"
    using cl dl by (simp_all add: s2_def)
  have idle: "\<not> (rct_areActive (eng c) ! nat i \<and> rct_nextTrigs (eng c) ! nat i < now) \<longrightarrow> c' = c"
    by (auto simp add: c'_def run_trig_body_def Let_def)
  have busy: "trace c' = trace c @ TriggerTest i b # (if b \<and> delay = 0 then [DirectRun i] else [])
          \<and> (\<not> b \<longrightarrow> world c' = w1 \<and> eng c' = s1)
          \<and> (b \<and> delay = 0 \<longrightarrow> world c' = fst Y \<and> eng c' = snd Y)
          \<and> (b \<and> delay \<noteq> 0 \<longrightarrow>
                world c' = w1
              \<and> eng c' = s2\<lparr>rct_nextCalls := (rct_nextCalls s2)[nat i := now + delay],
                             rct_areTrigged := (rct_areTrigged s2)[nat i := True]\<rparr>)"
    if "rct_areActive (eng c) ! nat i \<and> rct_nextTrigs (eng c) ! nat i < now"
  proof -
    have "c' = (if b then
                 if delay = 0 then \<lparr>world = fst Y, eng = snd Y,
                        trace = (trace c @ [TriggerTest i b]) @ [DirectRun i]\<rparr>
                 else \<lparr>world = w1,
                       eng = s2\<lparr>rct_nextCalls := (rct_nextCalls s2)[nat i := now + delay],
                             rct_areTrigged := (rct_areTrigged s2)[nat i := True]\<rparr>,
                       trace = trace c @ [TriggerTest i b]\<rparr>
               else \<lparr>world = w1, eng = s1, trace = trace c @ [TriggerTest i b]\<rparr>)"
      using that
      by (simp add: c'_def run_trig_body_def Let_def split_beta X_def [symmetric]
            b_def [symmetric] w1_def [symmetric] s1_def [symmetric] to dl cl
            s2_def [symmetric] s2f Y_def [symmetric])
    then show ?thesis by simp
  qed
  have upd: "rct_nextTrigs s2 ! nat i = now + timeout" "rct_areTrigged s2 = rct_areTrigged s1"
    using len by (simp_all add: s2_def)
  have fin: "rct_nextTrigs (s2\<lparr>rct_nextCalls := (rct_nextCalls s2)[nat i := now + delay],
                             rct_areTrigged := (rct_areTrigged s2)[nat i := True]\<rparr>) ! nat i
               = now + timeout"
    "rct_nextCalls (s2\<lparr>rct_nextCalls := (rct_nextCalls s2)[nat i := now + delay],
                             rct_areTrigged := (rct_areTrigged s2)[nat i := True]\<rparr>) ! nat i
               = now + delay"
    "rct_areTrigged (s2\<lparr>rct_nextCalls := (rct_nextCalls s2)[nat i := now + delay],
                             rct_areTrigged := (rct_areTrigged s2)[nat i := True]\<rparr>) ! nat i"
    using len by (simp_all add: s2_def)
  show ?thesis
    using idle busy upd fin by metis
qed


text \<open>The first two loops add no event of the third.\<close>

lemma count_before_trig:
  assumes "is_trig e"
  shows "count_list (trace (run_pend E T R now 0 (run_schd E T R now 0 c))) e
           = count_list (trace c) e"
proof -
  obtain j1 where 1: "added is_sched 0 j1 (trace c) (trace (run_schd E T R now 0 c))"
    using run_schd_added by blast
  obtain j2 where 2: "added is_pend 0 j2 (trace (run_schd E T R now 0 c))
      (trace (run_pend E T R now 0 (run_schd E T R now 0 c)))"
    using run_pend_added by blast
  have "\<not> is_sched e" "\<not> is_pend e" using assms kinds_disjoint by blast+
  then show ?thesis
    using added_count_outside [OF 1, of e] added_count_outside [OF 2, of e] by simp
qed

text \<open>
  Claim C2. Take a well-formed \<^verbatim>\<open>SimpleEvents\<close> object and a reaction \<open>i\<close> that exists
  when \<^verbatim>\<open>run()\<close> is called, and let \<open>now\<close> be the clock reading of this tick. The tick
  is: the first two loops (giving \<open>c2\<close>), the passes of the third loop for the entries
  before \<open>i\<close> (giving \<open>ci\<close>), the pass for \<open>i\<close> (giving \<open>c'\<close>), and the rest of the
  third loop. In the pass for \<open>i\<close>: if the entry is not active or its
  \<^verbatim>\<open>rct_nextTrigs\<close> is not before \<open>now\<close>, nothing happens. Otherwise the predicate is
  called, giving \<open>b\<close> and leaving the world \<open>w1\<close> and the object \<open>s1\<close>; if \<open>b\<close> is false
  that is all; if \<open>b\<close> is true, \<^verbatim>\<open>rct_nextTrigs[i]\<close> becomes \<open>now + timeout\<close> in either
  case (the object \<open>s2\<close>), then with delay 0 the action is called on \<open>s2\<close>, whose pending
  flags are those of \<open>s1\<close>, and with another delay the action is not called,
  \<^verbatim>\<open>rct_nextCalls[i]\<close> becomes \<open>now + delay\<close> and the pending flag of \<open>i\<close> is set.
  Over the whole tick the predicate of \<open>i\<close> is called exactly once if the entry is
  active with \<^verbatim>\<open>rct_nextTrigs\<close> before \<open>now\<close> when its pass begins, and not at all
  otherwise; the action is called from the scan exactly once if moreover the predicate
  held and the delay is 0, and not at all otherwise.
\<close>

theorem trigger_scan:
  fixes E :: "(call, 'w) env" and c :: "(SimpleEvents, 'w) conf" and T R i :: int
  assumes "class_inv T R (eng c)" and "0 \<le> i" and "i \<le> last_rct (eng c)"
  defines "now \<equiv> millis E (world c)"
  defines "c2 \<equiv> run_pend E T R now 0 (run_schd E T R now 0 c)"
  defines "ci \<equiv> steps (run_trig_body E T R now) 0 (nat i) c2"
  defines "due \<equiv> rct_areActive (eng ci) ! nat i \<and> rct_nextTrigs (eng ci) ! nat i < now"
  defines "X \<equiv> exec (api T R) (check E (rct_trigs (eng c) ! nat i) (world ci)) (eng ci)"
  defines "b \<equiv> fst (fst X)" and "w1 \<equiv> snd (fst X)" and "s1 \<equiv> snd X"
  defines "timeout \<equiv> rct_tTimeouts (eng c) ! nat i"
    and "delay \<equiv> rct_tDelays (eng c) ! nat i"
  defines "s2 \<equiv> s1\<lparr>rct_nextTrigs := (rct_nextTrigs s1)[nat i := now + timeout]\<rparr>"
  defines "Y \<equiv> exec (api T R) (action E (rct_calls (eng c) ! nat i) w1) s2"
  defines "c' \<equiv> run_trig_body E T R now i ci"
  shows "run E T R c = run_trig E T R now (i + 1) c'
       \<and> (\<not> due \<longrightarrow> c' = ci)
       \<and> (due \<longrightarrow>
            trace c' = trace ci @ TriggerTest i b # (if b \<and> delay = 0 then [DirectRun i] else [])
          \<and> (\<not> b \<longrightarrow> world c' = w1 \<and> eng c' = s1)
          \<and> (b \<longrightarrow> rct_nextTrigs s2 ! nat i = now + timeout)
          \<and> (b \<and> delay = 0 \<longrightarrow>
                world c' = fst Y \<and> eng c' = snd Y \<and> rct_areTrigged s2 = rct_areTrigged s1)
          \<and> (b \<and> delay \<noteq> 0 \<longrightarrow>
                world c' = w1
              \<and> eng c' = s2\<lparr>rct_nextCalls := (rct_nextCalls s2)[nat i := now + delay],
                             rct_areTrigged := (rct_areTrigged s2)[nat i := True]\<rparr>
              \<and> rct_nextTrigs (eng c') ! nat i = now + timeout
              \<and> rct_nextCalls (eng c') ! nat i = now + delay
              \<and> rct_areTrigged (eng c') ! nat i))
       \<and> (\<forall>v. count_list (trace (run E T R c)) (TriggerTest i v)
              = count_list (trace c) (TriggerTest i v) + (if due \<and> v = b then 1 else 0))
       \<and> count_list (trace (run E T R c)) (DirectRun i)
              = count_list (trace c) (DirectRun i) + (if due \<and> b \<and> delay = 0 then 1 else 0)"
proof -
  have le2: "i \<le> last_rct (eng c2)" and st2: "rct_static (eng c2) i = rct_static (eng c) i"
    unfolding c2_def
    using rct_static_kept(4) [OF assms(2,3), of E T R now]
      rct_static_kept(5) [OF assms(2), of "run_schd E T R now 0 c" E T R now]
    by simp_all
  have inv2: "class_inv T R (eng c2)"
    unfolding c2_def by (intro class_inv_kept assms(1))
  have invi: "class_inv T R (eng ci)"
    unfolding ci_def by (intro class_inv_kept inv2)
  have lei: "i \<le> last_rct (eng ci)" and sti: "rct_static (eng ci) i = rct_static (eng c) i"
    unfolding ci_def using rct_static_kept(3) [OF assms(2) le2, of E T R now 0 "nat i"] st2
    by simp_all
  have f: "rct_trigs (eng ci) ! nat i = rct_trigs (eng c) ! nat i"
    "rct_calls (eng ci) ! nat i = rct_calls (eng c) ! nat i"
    "rct_tTimeouts (eng ci) ! nat i = timeout" "rct_tDelays (eng ci) ! nat i = delay"
    using sti by (simp_all add: rct_static_def timeout_def delay_def)
  note at = run_trig_at [where i = i and c = c2 and E = E and T = T and R = R and now = now,
      OF assms(2) le2]
  have dec: "run E T R c = run_trig E T R now (i + 1) c'"
    using at(1) by (simp add: run_def Let_def now_def c2_def ci_def c'_def)
  note body = trig_body_spec [OF invi assms(2) lei, where E = E and now = now, unfolded f,
      folded X_def, folded b_def w1_def s1_def, folded s2_def, folded Y_def c'_def due_def]
  have tr: "trace c' = trace ci @ (if due then TriggerTest i b #
              (if b \<and> delay = 0 then [DirectRun i] else []) else [])"
    using body by (cases due) simp_all
  have cnt: "count_list (trace (run E T R c)) e
      = count_list (trace c) e + count_list (if due then TriggerTest i b #
              (if b \<and> delay = 0 then [DirectRun i] else []) else []) e"
    if "ev_id e = i" "is_trig e" for e
  proof -
    have "count_list (trace (run E T R c)) e = count_list (trace c') e"
      using at(4) [OF that(1)] by (simp add: run_def Let_def now_def c2_def ci_def c'_def)
    also have "\<dots> = count_list (trace ci) e + count_list (if due then TriggerTest i b #
              (if b \<and> delay = 0 then [DirectRun i] else []) else []) e"
      unfolding tr by simp
    also have "count_list (trace ci) e = count_list (trace c2) e"
      using at(3) [OF that(1)] by (simp add: ci_def)
    also have "\<dots> = count_list (trace c) e"
      unfolding c2_def by (rule count_before_trig [OF that(2)])
    finally show ?thesis .
  qed
  have c1: "\<forall>v. count_list (trace (run E T R c)) (TriggerTest i v)
              = count_list (trace c) (TriggerTest i v) + (if due \<and> v = b then 1 else 0)"
    using cnt [of "TriggerTest i v" for v] by auto
  have c2: "count_list (trace (run E T R c)) (DirectRun i)
              = count_list (trace c) (DirectRun i) + (if due \<and> b \<and> delay = 0 then 1 else 0)"
    using cnt [of "DirectRun i"] by auto
  show ?thesis
    using dec body c1 c2 by blast
qed

theorem trigger_scan_witness:
  "count_list (trace (run (idle_env :: (call, ulong) env) 2 2
      \<lparr>world = 10, eng = snd (addReaction 2 1 2 4000 2000 0 (init 2 2)), trace = []\<rparr>))
      (TriggerTest 0 True) = 1
   \<and> count_list (trace (run (idle_env :: (call, ulong) env) 2 2
      \<lparr>world = 10, eng = snd (addReaction 2 1 2 4000 2000 0 (init 2 2)), trace = []\<rparr>))
      (DirectRun 0) = 0"
proof -
  let ?E = "idle_env :: (call, ulong) env"
  let ?c = "\<lparr>world = 10 :: ulong, eng = snd (addReaction 2 1 2 4000 2000 0 (init 2 2)),
             trace = []\<rparr>"
  have c: "class_inv 2 2 (eng ?c)" "0 \<le> (0 :: int)" "0 \<le> last_rct (eng ?c)"
    by (simp_all add: class_inv_def addReaction_def init_def Let_def)
  have m: "millis ?E (world ?c) = 10" by (simp add: idle_env_def)
  have l: "last_schd (eng ?c) = - 1" "last_rct (eng ?c) = 0"
    "\<not> rct_areTrigged (eng ?c) ! 0"
    by (simp_all add: addReaction_def init_def Let_def)
  have s1: "run_schd ?E 2 2 10 0 ?c = ?c"
    by (subst run_schd.simps) (simp add: addReaction_def init_def Let_def)
  have s2: "run_pend ?E 2 2 10 0 ?c = ?c"
    by (subst run_pend.simps, subst run_pend.simps)
       (simp add: run_pend_body_def addReaction_def init_def Let_def)
  let ?due = "rct_areActive (eng ?c) ! 0 \<and> rct_nextTrigs (eng ?c) ! 0 < 10"
  let ?b = "fst (fst (exec (api 2 2) (check ?E (rct_trigs (eng ?c) ! 0) (world ?c)) (eng ?c)))"
  let ?delay = "rct_tDelays (eng ?c) ! 0"
  have v: "?due" "?b" "?delay \<noteq> 0"
    by (simp_all add: idle_env_def addReaction_def init_def Let_def)
  note t = trigger_scan [OF c, where E = ?E, unfolded m s1 s2 nat_0 steps.simps]
  have "count_list (trace (run ?E 2 2 ?c)) (TriggerTest 0 True)
          = count_list (trace ?c) (TriggerTest 0 True) + (if ?due \<and> True = ?b then 1 else 0)"
    using t by blast
  moreover have "count_list (trace (run ?E 2 2 ?c)) (DirectRun 0)
          = count_list (trace ?c) (DirectRun 0) + (if ?due \<and> ?b \<and> ?delay = 0 then 1 else 0)"
    using t by blast
  ultimately show ?thesis
    using v by simp
qed

section \<open>The three loops of a tick\<close>









section \<open>Running the loops on a concrete object\<close>

lemma run_schd_go:
  "i \<le> last_schd (eng c) \<Longrightarrow>
     run_schd E T R now i c = run_schd E T R now (i + 1) (run_schd_body E T R now i c)"
  by (subst run_schd.simps) simp

lemma run_schd_stop: "\<not> i \<le> last_schd (eng c) \<Longrightarrow> run_schd E T R now i c = c"
  by (subst run_schd.simps) simp

lemma run_pend_go:
  "i \<le> last_rct (eng c) \<Longrightarrow>
     run_pend E T R now i c = run_pend E T R now (i + 1) (run_pend_body E T R now i c)"
  by (subst run_pend.simps) simp

lemma run_pend_stop: "\<not> i \<le> last_rct (eng c) \<Longrightarrow> run_pend E T R now i c = c"
  by (subst run_pend.simps) simp

lemma run_trig_go:
  "i \<le> last_rct (eng c) \<Longrightarrow>
     run_trig E T R now i c = run_trig E T R now (i + 1) (run_trig_body E T R now i c)"
  by (subst run_trig.simps) simp

lemma run_trig_stop: "\<not> i \<le> last_rct (eng c) \<Longrightarrow> run_trig E T R now i c = c"
  by (subst run_trig.simps) simp

lemmas run_eval =
  run_def run_schd_go run_schd_stop run_pend_go run_pend_stop run_trig_go run_trig_stop
  run_schd_body_def run_pend_body_def run_trig_body_def Let_def

lemma run_schd_t_go:
  "i \<le> last_schd_t (eng c) \<Longrightarrow>
     run_schd_t E T R now i c = run_schd_t E T R now (i + 1) (run_schd_body_t E T R now i c)"
  by (subst run_schd_t.simps) simp

lemma run_schd_t_stop: "\<not> i \<le> last_schd_t (eng c) \<Longrightarrow> run_schd_t E T R now i c = c"
  by (subst run_schd_t.simps) simp

lemma run_pend_t_go:
  "i \<le> last_rct_t (eng c) \<Longrightarrow>
     run_pend_t E T R now i c = run_pend_t E T R now (i + 1) (run_pend_body_t E T R now i c)"
  by (subst run_pend_t.simps) simp

lemma run_pend_t_stop: "\<not> i \<le> last_rct_t (eng c) \<Longrightarrow> run_pend_t E T R now i c = c"
  by (subst run_pend_t.simps) simp

lemma run_trig_t_go:
  "i \<le> last_rct_t (eng c) \<Longrightarrow>
     run_trig_t E T R now i c = run_trig_t E T R now (i + 1) (run_trig_body_t E T R now i c)"
  by (subst run_trig_t.simps) simp

lemma run_trig_t_stop: "\<not> i \<le> last_rct_t (eng c) \<Longrightarrow> run_trig_t E T R now i c = c"
  by (subst run_trig_t.simps) simp

lemmas run_t_eval =
  run_t_def run_schd_t_go run_schd_t_stop run_pend_t_go run_pend_t_stop run_trig_t_go
  run_trig_t_stop run_schd_body_t_def run_pend_body_t_def run_trig_body_t_def Let_def

section \<open>The timeout of a reaction is stored as given\<close>

text \<open>
  Claim C4. The comment on \<^verbatim>\<open>addReaction\<close> in both headers says that the timeout is
  automatically set to be at least as long as the delay. Neither method does so: the
  timeout is stored as given. A reaction added with timeout 100 and delay 2000 keeps
  the timeout 100; its trigger, accepted in a tick at time 10, is accepted again in a
  tick at time 111, that is 101 ms later and long before the delay has passed, and the
  second acceptance moves the queued execution from 2010 to 2111.
\<close>

theorem addReaction_keeps_short_timeout:
  "rct_tTimeouts (snd (addReaction 1 1 2 100 2000 0 (init 1 1))) ! 0 = 100
   \<and> rct_tDelays (snd (addReaction 1 1 2 100 2000 0 (init 1 1))) ! 0 = 2000
   \<and> run (idle_env :: (call, ulong) env) 1 1
        \<lparr>world = 10, eng = snd (addReaction 1 1 2 100 2000 0 (init 1 1)), trace = []\<rparr>
      = \<lparr>world = 10,
         eng = (snd (addReaction 1 1 2 100 2000 0 (init 1 1)))
                 \<lparr>rct_areTrigged := [True], rct_nextTrigs := [110], rct_nextCalls := [2010]\<rparr>,
         trace = [TriggerTest 0 True]\<rparr>
   \<and> run (idle_env :: (call, ulong) env) 1 1
        \<lparr>world = 111,
         eng = (snd (addReaction 1 1 2 100 2000 0 (init 1 1)))
                 \<lparr>rct_areTrigged := [True], rct_nextTrigs := [110], rct_nextCalls := [2010]\<rparr>,
         trace = [TriggerTest 0 True]\<rparr>
      = \<lparr>world = 111,
         eng = (snd (addReaction 1 1 2 100 2000 0 (init 1 1)))
                 \<lparr>rct_areTrigged := [True], rct_nextTrigs := [211], rct_nextCalls := [2111]\<rparr>,
         trace = [TriggerTest 0 True, TriggerTest 0 True]\<rparr>
   \<and> rct_tTimeouts_t (snd (addReaction_t 1 1 2 100 2000 0
        (init_t 1 1 :: (32 word, 16 word) TinyEvents))) ! 0 = 100
   \<and> rct_tDelays_t (snd (addReaction_t 1 1 2 100 2000 0
        (init_t 1 1 :: (32 word, 16 word) TinyEvents))) ! 0 = 2000
   \<and> run_t (idle_env :: ((32 word, 16 word) tcall, ulong) env) 1 1
        \<lparr>world = 10, eng = snd (addReaction_t 1 1 2 100 2000 0 (init_t 1 1)), trace = []\<rparr>
      = \<lparr>world = 10,
         eng = (snd (addReaction_t 1 1 2 100 2000 0 (init_t 1 1)))
                 \<lparr>rct_areTrigged_t := [1], rct_nextTrigs_t := [110], rct_nextCalls_t := [2010]\<rparr>,
         trace = [TriggerTest 0 True]\<rparr>
   \<and> run_t (idle_env :: ((32 word, 16 word) tcall, ulong) env) 1 1
        \<lparr>world = 111,
         eng = (snd (addReaction_t 1 1 2 100 2000 0 (init_t 1 1)))
                 \<lparr>rct_areTrigged_t := [1], rct_nextTrigs_t := [110], rct_nextCalls_t := [2010]\<rparr>,
         trace = [TriggerTest 0 True]\<rparr>
      = \<lparr>world = 111,
         eng = (snd (addReaction_t 1 1 2 100 2000 0 (init_t 1 1)))
                 \<lparr>rct_areTrigged_t := [1], rct_nextTrigs_t := [211], rct_nextCalls_t := [2111]\<rparr>,
         trace = [TriggerTest 0 True, TriggerTest 0 True]\<rparr>"
proof -
  have a: "rct_tTimeouts (snd (addReaction 1 1 2 100 2000 0 (init 1 1))) ! 0 = 100"
    "rct_tDelays (snd (addReaction 1 1 2 100 2000 0 (init 1 1))) ! 0 = 2000"
    by (simp_all add: addReaction_def init_def)
  have b: "run (idle_env :: (call, ulong) env) 1 1
        \<lparr>world = 10, eng = snd (addReaction 1 1 2 100 2000 0 (init 1 1)), trace = []\<rparr>
      = \<lparr>world = 10,
         eng = (snd (addReaction 1 1 2 100 2000 0 (init 1 1)))
                 \<lparr>rct_areTrigged := [True], rct_nextTrigs := [110], rct_nextCalls := [2010]\<rparr>,
         trace = [TriggerTest 0 True]\<rparr>"
    by (simp add: run_eval idle_env_def addReaction_def init_def)
  have c: "run (idle_env :: (call, ulong) env) 1 1
        \<lparr>world = 111,
         eng = (snd (addReaction 1 1 2 100 2000 0 (init 1 1)))
                 \<lparr>rct_areTrigged := [True], rct_nextTrigs := [110], rct_nextCalls := [2010]\<rparr>,
         trace = [TriggerTest 0 True]\<rparr>
      = \<lparr>world = 111,
         eng = (snd (addReaction 1 1 2 100 2000 0 (init 1 1)))
                 \<lparr>rct_areTrigged := [True], rct_nextTrigs := [211], rct_nextCalls := [2111]\<rparr>,
         trace = [TriggerTest 0 True, TriggerTest 0 True]\<rparr>"
    by (simp add: run_eval idle_env_def addReaction_def init_def)
  have a': "rct_tTimeouts_t (snd (addReaction_t 1 1 2 100 2000 0
        (init_t 1 1 :: (32 word, 16 word) TinyEvents))) ! 0 = 100"
    "rct_tDelays_t (snd (addReaction_t 1 1 2 100 2000 0
        (init_t 1 1 :: (32 word, 16 word) TinyEvents))) ! 0 = 2000"
    by (simp_all add: addReaction_t_def init_t_def)
  have b': "run_t (idle_env :: ((32 word, 16 word) tcall, ulong) env) 1 1
        \<lparr>world = 10, eng = snd (addReaction_t 1 1 2 100 2000 0 (init_t 1 1)), trace = []\<rparr>
      = \<lparr>world = 10,
         eng = (snd (addReaction_t 1 1 2 100 2000 0 (init_t 1 1)))
                 \<lparr>rct_areTrigged_t := [1], rct_nextTrigs_t := [110], rct_nextCalls_t := [2010]\<rparr>,
         trace = [TriggerTest 0 True]\<rparr>"
    by (simp add: run_t_eval idle_env_def addReaction_t_def init_t_def set_trigged_def
        trigged_def)
  have c': "run_t (idle_env :: ((32 word, 16 word) tcall, ulong) env) 1 1
        \<lparr>world = 111,
         eng = (snd (addReaction_t 1 1 2 100 2000 0 (init_t 1 1)))
                 \<lparr>rct_areTrigged_t := [1], rct_nextTrigs_t := [110], rct_nextCalls_t := [2010]\<rparr>,
         trace = [TriggerTest 0 True]\<rparr>
      = \<lparr>world = 111,
         eng = (snd (addReaction_t 1 1 2 100 2000 0 (init_t 1 1)))
                 \<lparr>rct_areTrigged_t := [1], rct_nextTrigs_t := [211], rct_nextCalls_t := [2111]\<rparr>,
         trace = [TriggerTest 0 True, TriggerTest 0 True]\<rparr>"
    by (simp add: run_t_eval idle_env_def addReaction_t_def init_t_def set_trigged_def
        trigged_def)
  show ?thesis
    using a b c a' b' c' by (intro conjI)
qed

end
